theory Spec2Isabelle
  imports Main
begin

section \<open>Runes and UTF-8\<close>

text \<open>
  A Go \<open>string\<close> is a sequence of bytes, modelled as a \<open>char list\<close>; a \<open>rune\<close> is a
  signed 32-bit code point, modelled as an \<open>int\<close> (no arithmetic is done on runes, so no
  wrap-around can occur). The lexer's end marker is \<open>rune(-1)\<close>.
\<close>

type_synonym rune = int

definition eof :: rune where
  "eof = - 1"

definition RuneError :: rune where
  "RuneError = 0xFFFD"

text \<open>
  \<open>utf8.DecodeRuneInString\<close> of the Go standard library: the first rune of a string and
  its width in bytes. An empty string gives \<open>(RuneError, 0)\<close>, an invalid or truncated
  encoding gives \<open>(RuneError, 1)\<close>. The masks \<open>0x1F\<close>, \<open>0x0F\<close>, \<open>0x07\<close> and \<open>0x3F\<close> are
  written as \<open>mod\<close>, the shifts as multiplications; the bit fields do not overlap, so the
  bitwise or is a sum.
\<close>

definition DecodeRuneInString :: "string \<Rightarrow> rune \<times> nat" where
  "DecodeRuneInString s =
     (case s of
        [] \<Rightarrow> (RuneError, 0)
      | c0 # t \<Rightarrow>
          (let s0 = (of_char c0 :: nat) in
           if s0 < 0x80 then (int s0, 1)
           else if s0 < 0xC2 \<or> 0xF4 < s0 then (RuneError, 1)
           else
             (let sz = (if s0 < 0xE0 then 2 else if s0 < 0xF0 then 3 else (4::nat));
                  lo = (if s0 = 0xE0 then 0xA0 else if s0 = 0xF0 then 0x90 else (0x80::nat));
                  hi = (if s0 = 0xED then 0x9F else if s0 = 0xF4 then 0x8F else (0xBF::nat))
              in if length s < sz then (RuneError, 1)
                 else
                   (let s1 = (of_char (t ! 0) :: nat) in
                    if s1 < lo \<or> hi < s1 then (RuneError, 1)
                    else if sz \<le> 2 then (int ((s0 mod 32) * 64 + s1 mod 64), 2)
                    else
                      (let s2 = (of_char (t ! 1) :: nat) in
                       if s2 < 0x80 \<or> 0xBF < s2 then (RuneError, 1)
                       else if sz \<le> 3
                         then (int ((s0 mod 16) * 4096 + (s1 mod 64) * 64 + s2 mod 64), 3)
                       else
                         (let s3 = (of_char (t ! 2) :: nat) in
                          if s3 < 0x80 \<or> 0xBF < s3 then (RuneError, 1)
                          else (int ((s0 mod 8) * 262144 + (s1 mod 64) * 4096
                                     + (s2 mod 64) * 64 + s3 mod 64), 4)))))))"

text \<open>
  The verb \<open>%c\<close> of \<open>fmt\<close>: the UTF-8 encoding of a rune, the encoding of \<open>RuneError\<close>
  for a value that is not a valid code point.
\<close>

definition encodeRune :: "rune \<Rightarrow> string" where
  "encodeRune r =
     (let n = nat r in
      if 0 \<le> r \<and> r < 0x80 then [char_of n]
      else if 0 \<le> r \<and> r < 0x800 then [char_of (0xC0 + n div 64), char_of (0x80 + n mod 64)]
      else if r < 0 \<or> 0x10FFFF < r \<or> (0xD800 \<le> r \<and> r \<le> 0xDFFF)
        then [char_of (0xEF::nat), char_of (0xBF::nat), char_of (0xBD::nat)]
      else if r < 0x10000
        then [char_of (0xE0 + n div 4096), char_of (0x80 + (n div 64) mod 64),
              char_of (0x80 + n mod 64)]
      else [char_of (0xF0 + n div 262144), char_of (0x80 + (n div 4096) mod 64),
            char_of (0x80 + (n div 64) mod 64), char_of (0x80 + n mod 64)])"

section \<open>Lexer\<close>

datatype tokenType =
    tokenError
  | tokenEOF
  | tokenNumber
  | tokenBool
  | tokenIdentifier
  | tokenLeftParen
  | tokenRightParen

fun tokenTypeString :: "tokenType \<Rightarrow> string" where
  "tokenTypeString tokenError = ''error''"
| "tokenTypeString tokenEOF = ''EOF''"
| "tokenTypeString tokenNumber = ''number''"
| "tokenTypeString tokenBool = ''bool''"
| "tokenTypeString tokenIdentifier = ''identifier''"
| "tokenTypeString tokenLeftParen = [CHR 0x27, CHR ''('', CHR 0x27]"
| "tokenTypeString tokenRightParen = [CHR 0x27, CHR '')'', CHR 0x27]"

text \<open>The struct \<open>token\<close>; \<open>ttyp\<close> and \<open>tval\<close> are its fields \<open>typ\<close> and \<open>val\<close>.\<close>

datatype token = Token (ttyp: tokenType) (tval: string)

text \<open>\<open>errorTokenf\<close> with its format already expanded: the pieces are concatenated.\<close>

definition errorTokenf :: "string list \<Rightarrow> token" where
  "errorTokenf parts = Token tokenError (concat parts)"

text \<open>
  The lexer's state. Its methods take the state and return it updated: \<open>lnext\<close> is
  \<open>lexer.next\<close> (which also returns the rune read), \<open>lexer_val\<close> is \<open>lexer.val\<close>, the
  slice \<open>input[start:pos]\<close>.
\<close>

record lexer =
  input :: string
  pos :: nat
  start :: nat
  width :: nat

definition newLexer :: "string \<Rightarrow> lexer" where
  "newLexer s = \<lparr>input = s, pos = 0, start = 0, width = 0\<rparr>"

definition lnext :: "lexer \<Rightarrow> rune \<times> lexer" where
  "lnext l =
     (if length (input l) \<le> pos l then (eof, l\<lparr>width := 0\<rparr>)
      else (case DecodeRuneInString (drop (pos l) (input l)) of
              (ch, w) \<Rightarrow> (ch, l\<lparr>pos := pos l + w, width := w\<rparr>)))"

definition unnext :: "lexer \<Rightarrow> lexer" where
  "unnext l = l\<lparr>pos := pos l - width l\<rparr>"

definition lexer_val :: "lexer \<Rightarrow> string" where
  "lexer_val l = take (pos l - start l) (drop (start l) (input l))"

definition emit :: "tokenType \<Rightarrow> lexer \<Rightarrow> token \<times> lexer" where
  "emit ty l = (Token ty (lexer_val l), l\<lparr>start := pos l\<rparr>)"

definition isSpace :: "rune \<Rightarrow> bool" where
  "isSpace r = (r = 0x20 \<or> r = 0x09 \<or> r = 0x0D \<or> r = 0x0A)"

definition isLetter :: "rune \<Rightarrow> bool" where
  "isLetter r = (0x61 \<le> r \<and> r \<le> 0x7A \<or> 0x41 \<le> r \<and> r \<le> 0x5A)"

definition isDigit :: "rune \<Rightarrow> bool" where
  "isDigit r = (0x30 \<le> r \<and> r \<le> 0x39)"

definition isBoundary :: "rune \<Rightarrow> bool" where
  "isBoundary r = (isSpace r \<or> r = 0x29 \<or> r = eof)"

text \<open>
  Every loop of the lexer calls \<open>next\<close> until the rune read leaves a character class
  that excludes the end marker, so each iteration moves \<open>pos\<close> forward.
\<close>

lemma DecodeRuneInString_width: "s \<noteq> [] \<Longrightarrow> 1 \<le> snd (DecodeRuneInString s)"
  by (cases s) (simp_all add: DecodeRuneInString_def Let_def)

lemma DecodeRuneInString_nonneg: "0 \<le> fst (DecodeRuneInString s)"
  by (cases s) (simp_all add: DecodeRuneInString_def Let_def RuneError_def)

lemma lnext_progress:
  assumes "lnext l = (ch, l')" and "ch \<noteq> eof"
  shows "length (input l') - pos l' < length (input l) - pos l"
proof -
  have lt: "pos l < length (input l)"
    using assms by (auto simp: lnext_def split: if_splits)
  then have "drop (pos l) (input l) \<noteq> []" by simp
  then have "1 \<le> snd (DecodeRuneInString (drop (pos l) (input l)))"
    by (rule DecodeRuneInString_width)
  with lt assms show ?thesis
    by (auto simp: lnext_def split: if_splits prod.splits)
qed

lemma isSpace_not_eof: "isSpace ch \<Longrightarrow> ch \<noteq> eof"
  by (auto simp: isSpace_def eof_def)

lemma isDigit_not_eof: "isDigit ch \<Longrightarrow> ch \<noteq> eof"
  by (auto simp: isDigit_def eof_def)

lemma isLetter_not_eof: "isLetter ch \<Longrightarrow> ch \<noteq> eof"
  by (auto simp: isLetter_def eof_def)

text \<open>\<open>for isSpace(l.next()) {}\<close>: returns the lexer after the first rune that is not a space.\<close>

function skipSpacesLoop :: "lexer \<Rightarrow> lexer" where
  "skipSpacesLoop l =
     (case lnext l of (ch, l') \<Rightarrow> if isSpace ch then skipSpacesLoop l' else l')"
  by pat_completeness auto
termination
  by (relation "measure (\<lambda>l. length (input l) - pos l)")
     (auto dest: isSpace_not_eof lnext_progress [OF sym])

declare skipSpacesLoop.simps [simp del]

definition skipSpaces :: "lexer \<Rightarrow> lexer" where
  "skipSpaces l = (let l1 = unnext (skipSpacesLoop l) in l1\<lparr>start := pos l1\<rparr>)"

text \<open>
  \<open>for { ch = l.next(); if !isDigit(ch) { break } }\<close>: returns the first rune that is not a
  digit, and the lexer after it.
\<close>

function digitsLoop :: "lexer \<Rightarrow> rune \<times> lexer" where
  "digitsLoop l =
     (case lnext l of (ch, l') \<Rightarrow> if \<not> isDigit ch then (ch, l') else digitsLoop l')"
  by pat_completeness auto
termination
  by (relation "measure (\<lambda>l. length (input l) - pos l)")
     (auto dest: isDigit_not_eof lnext_progress [OF sym])

declare digitsLoop.simps [simp del]

definition lexNumber :: "lexer \<Rightarrow> token \<times> lexer" where
  "lexNumber l =
     (case lnext l of (ch0, l0) \<Rightarrow>
      (case (if ch0 = 0x2D then lnext l0 else (ch0, l0)) of (ch1, l1) \<Rightarrow>
       if \<not> isDigit ch1 then
         (let l2 = (if isBoundary ch1 then unnext l1 else l1)
          in (errorTokenf [''bad number syntax: '', [CHR 0x27], lexer_val l2, [CHR 0x27]], l2))
       else
         (case digitsLoop l1 of (ch2, l2) \<Rightarrow>
          if \<not> isBoundary ch2
          then (errorTokenf [''bad number syntax: '', [CHR 0x27], lexer_val l2, [CHR 0x27]], l2)
          else emit tokenNumber (unnext l2))))"

text \<open>
  \<open>for { ch = l.next(); if !isDigit(ch) && !isLetter(ch) { break } }\<close> of
  \<open>lexIdentifier\<close>.
\<close>

function identLoop :: "lexer \<Rightarrow> rune \<times> lexer" where
  "identLoop l =
     (case lnext l of (ch, l') \<Rightarrow>
        if \<not> isDigit ch \<and> \<not> isLetter ch then (ch, l') else identLoop l')"
  by pat_completeness auto
termination
  by (relation "measure (\<lambda>l. length (input l) - pos l)")
     (auto dest: isDigit_not_eof isLetter_not_eof lnext_progress [OF sym])

declare identLoop.simps [simp del]

definition lexIdentifier :: "lexer \<Rightarrow> token \<times> lexer" where
  "lexIdentifier l =
     (case identLoop l of (ch, l1) \<Rightarrow>
      if \<not> isBoundary ch
      then (errorTokenf [''bad identifier syntax: '', [CHR 0x27], lexer_val l1, [CHR 0x27]], l1)
      else
        (let l2 = unnext l1;
             ty = (if lexer_val l2 = ''true'' \<or> lexer_val l2 = ''false''
                   then tokenBool else tokenIdentifier)
         in emit ty l2))"

definition nextToken :: "lexer \<Rightarrow> token \<times> lexer" where
  "nextToken l =
     (case lnext (skipSpaces l) of (ch, l1) \<Rightarrow>
        if ch = 0x2D \<or> isDigit ch then lexNumber (unnext l1)
        else if isLetter ch then lexIdentifier l1
        else if ch = 0x28 then emit tokenLeftParen l1
        else if ch = 0x29 then emit tokenRightParen l1
        else if ch = eof then emit tokenEOF l1
        else (errorTokenf [''illegal character: '', [CHR 0x27], encodeRune ch, [CHR 0x27]], l1))"

section \<open>Parser\<close>

datatype syntaxType =
    syntaxExpression
  | syntaxRightParen
  | syntaxNumber
  | syntaxBool
  | syntaxIdentifier
  | syntaxEOF

fun syntaxTypeString :: "syntaxType \<Rightarrow> string" where
  "syntaxTypeString syntaxExpression = ''expression''"
| "syntaxTypeString syntaxRightParen = [CHR 0x27, CHR '')'', CHR 0x27]"
| "syntaxTypeString syntaxNumber = ''number''"
| "syntaxTypeString syntaxBool = ''bool''"
| "syntaxTypeString syntaxIdentifier = ''identifier''"
| "syntaxTypeString syntaxEOF = ''EOF''"

text \<open>
  The \<open>val\<close> of an error node is an interface value whose dynamic type the program
  inspects in two places (\<open>isUnexpectedEOFError\<close> and \<open>evalEnv\<close>), so the three dynamic
  types involved are kept apart: a \<open>*expectError\<close>, the error built by \<open>fmt.Errorf\<close>, and a
  plain Go \<open>string\<close>.
\<close>

datatype errorVal =
    ExpectError (want: syntaxType) (got: tokenType)
  | ErrorfError string
  | PlainString string

text \<open>
  A \<open>node\<close> is a tag and the value the tag announces: the two sub-nodes of an \<open>appNode\<close>,
  the parameter and the body of a \<open>lamNode\<close>, a name, a \<open>*big.Int\<close>, a bool. \<open>ntyp\<close> is
  the field \<open>typ\<close>.
\<close>

datatype nodeType =
    nodeError
  | nodeApp
  | nodeLam
  | nodeIdentifier
  | nodeNumber
  | nodeBool

datatype node =
    NodeError errorVal
  | NodeApp (fn: node) (arg: node)
  | NodeLam (param: string) (body: node)
  | NodeIdentifier string
  | NodeNumber int
  | NodeBool bool

fun ntyp :: "node \<Rightarrow> nodeType" where
  "ntyp (NodeError e) = nodeError"
| "ntyp (NodeApp f a) = nodeApp"
| "ntyp (NodeLam x b) = nodeLam"
| "ntyp (NodeIdentifier x) = nodeIdentifier"
| "ntyp (NodeNumber n) = nodeNumber"
| "ntyp (NodeBool b) = nodeBool"

definition errorNodef :: "string list \<Rightarrow> node" where
  "errorNodef parts = NodeError (ErrorfError (concat parts))"

definition newExpectError :: "syntaxType \<Rightarrow> tokenType \<Rightarrow> node" where
  "newExpectError w g = NodeError (ExpectError w g)"

text \<open>The \<open>Error()\<close> method of the two error types (a plain string has none).\<close>

fun errorText :: "errorVal \<Rightarrow> string option" where
  "errorText (ExpectError w g) =
     Some (''expecting '' @ syntaxTypeString w @ ''; got '' @ tokenTypeString g)"
| "errorText (ErrorfError m) = Some m"
| "errorText (PlainString m) = None"

datatype panic =
    MultipleUnnext
  | InterfaceConversion

text \<open>
  The parser's state: its lexer (the field \<open>lex\<close>) and the pushback buffer. \<open>pnext\<close>
  and \<open>punnext\<close> are \<open>parser.next\<close> and \<open>parser.unnext\<close>; the latter panics when the
  buffer is occupied.
\<close>

record parser =
  plex :: lexer
  buf :: "token option"

definition newParser :: "string \<Rightarrow> parser" where
  "newParser s = \<lparr>plex = newLexer s, buf = None\<rparr>"

definition pnext :: "parser \<Rightarrow> token \<times> parser" where
  "pnext p =
     (case buf p of
        Some t \<Rightarrow> (t, p\<lparr>buf := None\<rparr>)
      | None \<Rightarrow> (case nextToken (plex p) of (t, l) \<Rightarrow> (t, p\<lparr>plex := l\<rparr>)))"

definition punnext :: "token \<Rightarrow> parser \<Rightarrow> panic + parser" where
  "punnext t p = (if buf p \<noteq> None then Inl MultipleUnnext else Inr (p\<lparr>buf := Some t\<rparr>))"

definition parseIdentifier :: "parser \<Rightarrow> node \<times> parser" where
  "parseIdentifier p =
     (case pnext p of (tok, p1) \<Rightarrow>
        if ttyp tok \<noteq> tokenIdentifier then (newExpectError syntaxIdentifier (ttyp tok), p1)
        else (NodeIdentifier (tval tok), p1))"

text \<open>
  \<open>new(big.Int).SetString(s, 10)\<close> of the Go standard library: an optional sign, then one
  or more decimal digits and nothing else; the digits are accumulated from the left.
\<close>

definition digitOf :: "char \<Rightarrow> nat" where
  "digitOf c = of_char c - 0x30"

definition SetString :: "string \<Rightarrow> int option" where
  "SetString s =
     (case (case s of
              [] \<Rightarrow> (False, [])
            | c # r \<Rightarrow> if c = CHR ''-'' then (True, r)
                       else if c = CHR ''+'' then (False, r) else (False, s)) of
        (neg, ds) \<Rightarrow>
          if ds = [] \<or> \<not> list_all (\<lambda>c. isDigit (int (of_char c))) ds then None
          else (let n = int (foldl (\<lambda>acc c. 10 * acc + digitOf c) 0 ds)
                in Some (if neg then - n else n)))"

definition parseNumber :: "parser \<Rightarrow> node \<times> parser" where
  "parseNumber p =
     (case pnext p of (tok, p1) \<Rightarrow>
        (case SetString (tval tok) of
           None \<Rightarrow> (errorNodef [''bad number: '', [CHR 0x27], tval tok, [CHR 0x27]], p1)
         | Some n \<Rightarrow> (NodeNumber n, p1)))"

definition parseBool :: "parser \<Rightarrow> node \<times> parser" where
  "parseBool p =
     (case pnext p of (tok, p1) \<Rightarrow>
        if tval tok = ''true'' then (NodeBool True, p1)
        else if tval tok = ''false'' then (NodeBool False, p1)
        else (errorNodef [''bad bool: '', [CHR 0x27], tval tok, [CHR 0x27]], p1))"

text \<open>
  The recursive descent carries a fuel argument, the number of nested calls of
  \<open>parseExpression\<close> still allowed; \<open>None\<close> is fuel exhaustion. Every nested call
  follows a consumed token, so the length of the input bounds the nesting
  (\<open>parseExpression_enough_fuel\<close> below). The last case of the token switch of
  \<open>parseExpression\<close>, its \<open>default\<close>, is not reachable since the seven token types are
  covered by the cases before it.
\<close>

fun parseExpression :: "nat \<Rightarrow> parser \<Rightarrow> (panic + node \<times> parser) option"
  and parseApp :: "nat \<Rightarrow> parser \<Rightarrow> (panic + node \<times> parser) option"
  and parseLam :: "nat \<Rightarrow> parser \<Rightarrow> (panic + node \<times> parser) option"
where
  "parseExpression 0 p = None"
| "parseExpression (Suc k) p =
     (case pnext p of (tok, p1) \<Rightarrow>
        if ttyp tok = tokenLeftParen then
          (case parseExpression k p1 of
             None \<Rightarrow> None
           | Some (Inl e) \<Rightarrow> Some (Inl e)
           | Some (Inr (e, p2)) \<Rightarrow>
               if ntyp e = nodeError then Some (Inr (e, p2))
               else (case pnext p2 of (tok2, p3) \<Rightarrow>
                       if ttyp tok2 \<noteq> tokenRightParen
                       then Some (Inr (newExpectError syntaxRightParen (ttyp tok2), p3))
                       else Some (Inr (e, p3))))
        else if ttyp tok = tokenRightParen
          then Some (Inr (newExpectError syntaxExpression tokenRightParen, p1))
        else if ttyp tok = tokenIdentifier \<and> tval tok = ''lam'' then parseLam k p1
        else if ttyp tok = tokenIdentifier \<and> tval tok = ''app'' then parseApp k p1
        else if ttyp tok = tokenNumber then
          (case punnext tok p1 of
             Inl e \<Rightarrow> Some (Inl e)
           | Inr p2 \<Rightarrow> Some (Inr (parseNumber p2)))
        else if ttyp tok = tokenBool then
          (case punnext tok p1 of
             Inl e \<Rightarrow> Some (Inl e)
           | Inr p2 \<Rightarrow> Some (Inr (parseBool p2)))
        else if ttyp tok = tokenIdentifier then
          (case punnext tok p1 of
             Inl e \<Rightarrow> Some (Inl e)
           | Inr p2 \<Rightarrow> Some (Inr (parseIdentifier p2)))
        else if ttyp tok = tokenError
          then Some (Inr (NodeError (ErrorfError (tval tok)), p1))
        else Some (Inr (newExpectError syntaxExpression tokenEOF, p1)))"
| "parseApp k p =
     (case parseExpression k p of
        None \<Rightarrow> None
      | Some (Inl e) \<Rightarrow> Some (Inl e)
      | Some (Inr (f, p1)) \<Rightarrow>
          if ntyp f = nodeError then Some (Inr (f, p1))
          else (case parseExpression k p1 of
                  None \<Rightarrow> None
                | Some (Inl e) \<Rightarrow> Some (Inl e)
                | Some (Inr (a, p2)) \<Rightarrow>
                    if ntyp a = nodeError then Some (Inr (a, p2))
                    else Some (Inr (NodeApp f a, p2))))"
| "parseLam k p =
     (case parseIdentifier p of (prm, p1) \<Rightarrow>
        if ntyp prm = nodeError then Some (Inr (prm, p1))
        else (case prm of
                NodeIdentifier name \<Rightarrow>
                  (case parseExpression k p1 of
                     None \<Rightarrow> None
                   | Some (Inl e) \<Rightarrow> Some (Inl e)
                   | Some (Inr (b, p2)) \<Rightarrow>
                       if ntyp b = nodeError then Some (Inr (b, p2))
                       else Some (Inr (NodeLam name b, p2)))
              | _ \<Rightarrow> Some (Inl InterfaceConversion)))"

definition parse :: "nat \<Rightarrow> parser \<Rightarrow> (panic + node) option" where
  "parse k p =
     (case parseExpression k p of
        None \<Rightarrow> None
      | Some (Inl e) \<Rightarrow> Some (Inl e)
      | Some (Inr (root, p1)) \<Rightarrow>
          if ntyp root = nodeError then Some (Inr root)
          else (case pnext p1 of (tok, p2) \<Rightarrow>
                  if ttyp tok \<noteq> tokenEOF then Some (Inr (newExpectError syntaxEOF (ttyp tok)))
                  else Some (Inr root)))"

definition parseString :: "string \<Rightarrow> (panic + node) option" where
  "parseString s = parse (Suc (length s)) (newParser s)"

definition isUnexpectedEOFError :: "node \<Rightarrow> bool" where
  "isUnexpectedEOFError n =
     (if ntyp n \<noteq> nodeError then False
      else (case n of
              NodeError (ExpectError w g) \<Rightarrow> g = tokenEOF
            | _ \<Rightarrow> False))"

section \<open>Evaluator\<close>

text \<open>
  An \<open>object\<close> is a tag and the value the tag announces; \<open>otyp\<close> is the field \<open>typ\<close>.
\<close>

datatype objectType =
    objectError
  | objectBool
  | objectNumber
  | objectFunc
  | objectLam

text \<open>
  A \<open>funcObject\<close> is a Go closure. The seven closures the program can build are listed
  with the variables they capture: the three builtins, and the functions they return
  after one or two arguments. A \<open>LamObject\<close> holds the parameter and the body of its
  \<open>lamNode\<close> and the captured environment. An \<open>*environment\<close> is \<open>nil\<close> or a frame.
\<close>

datatype object =
    ErrorObject string
  | BoolObject bool
  | NumberObject int
  | FuncObject funcObject
  | LamObject string node environment
and funcObject =
    AddFn
  | AddFn1 object
  | IfFn
  | IfFn1 object
  | IfFn2 object object
  | GtFn
  | GtFn1 object
and environment =
    NilEnv
  | Environment (parent: environment) (symbol: string) (val: object)

fun otyp :: "object \<Rightarrow> objectType" where
  "otyp (ErrorObject m) = objectError"
| "otyp (BoolObject b) = objectBool"
| "otyp (NumberObject n) = objectNumber"
| "otyp (FuncObject f) = objectFunc"
| "otyp (LamObject x b e) = objectLam"

text \<open>\<open>(*big.Int).String()\<close>: the decimal digits, after a minus sign when negative.\<close>

fun natString :: "nat \<Rightarrow> string" where
  "natString n =
     (if n < 10 then [char_of (0x30 + n)]
      else natString (n div 10) @ [char_of (0x30 + n mod 10)])"

declare natString.simps [simp del]

definition bigIntString :: "int \<Rightarrow> string" where
  "bigIntString i = (if i < 0 then CHR ''-'' # natString (nat (- i)) else natString (nat i))"

text \<open>
  \<open>object.String()\<close>. A function or a closure prints the address of its value (\<open>%p\<close>),
  which the program does not determine: \<open>addr\<close> is that rendering, a parameter of the
  model.
\<close>

fun objectString :: "(object \<Rightarrow> string) \<Rightarrow> object \<Rightarrow> string" where
  "objectString addr (ErrorObject m) = m"
| "objectString addr (BoolObject b) = (if b then ''true'' else ''false'')"
| "objectString addr (NumberObject n) = bigIntString n"
| "objectString addr (FuncObject f) = ''<function '' @ addr (FuncObject f) @ ''>''"
| "objectString addr (LamObject x b e) =
     ''<lam '' @ x @ '' '' @ addr (LamObject x b e) @ ''>''"

definition errorObjectf :: "string list \<Rightarrow> object" where
  "errorObjectf parts = ErrorObject (concat parts)"

definition builtinAdd :: object where
  "builtinAdd = FuncObject AddFn"

definition builtinIf :: object where
  "builtinIf = FuncObject IfFn"

definition builtinGt :: object where
  "builtinGt = FuncObject GtFn"

text \<open>
  \<open>funcObject.apply\<close>: the body of each closure. A type assertion on the \<open>val\<close> of a
  captured object panics when the object is of another type.
\<close>

fun funcApply :: "(object \<Rightarrow> string) \<Rightarrow> funcObject \<Rightarrow> object \<Rightarrow> panic + object" where
  "funcApply addr AddFn a =
     (if otyp a \<noteq> objectNumber
      then Inr (errorObjectf [''add: not a number: '', [CHR 0x27], objectString addr a, [CHR 0x27]])
      else Inr (FuncObject (AddFn1 a)))"
| "funcApply addr (AddFn1 a) b =
     (if otyp b \<noteq> objectNumber
      then Inr (errorObjectf [''add: not a number: '', [CHR 0x27], objectString addr b, [CHR 0x27]])
      else (case a of
              NumberObject an \<Rightarrow>
                (case b of
                   NumberObject bn \<Rightarrow> Inr (NumberObject (an + bn))
                 | _ \<Rightarrow> Inl InterfaceConversion)
            | _ \<Rightarrow> Inl InterfaceConversion))"
| "funcApply addr IfFn a =
     (if otyp a \<noteq> objectBool
      then Inr (errorObjectf [''if: not a bool: '', [CHR 0x27], objectString addr a, [CHR 0x27]])
      else Inr (FuncObject (IfFn1 a)))"
| "funcApply addr (IfFn1 a) b = Inr (FuncObject (IfFn2 a b))"
| "funcApply addr (IfFn2 a b) c =
     (case a of
        BoolObject v \<Rightarrow> if v then Inr b else Inr c
      | _ \<Rightarrow> Inl InterfaceConversion)"
| "funcApply addr GtFn a =
     (if otyp a \<noteq> objectNumber
      then Inr (errorObjectf [''gt: not a number: '', [CHR 0x27], objectString addr a, [CHR 0x27]])
      else Inr (FuncObject (GtFn1 a)))"
| "funcApply addr (GtFn1 a) b =
     (if otyp b \<noteq> objectNumber
      then Inr (errorObjectf [''gt: not a number: '', [CHR 0x27], objectString addr b, [CHR 0x27]])
      else (case a of
              NumberObject an \<Rightarrow>
                (case b of
                   NumberObject bn \<Rightarrow> Inr (BoolObject (bn < an))
                 | _ \<Rightarrow> Inl InterfaceConversion)
            | _ \<Rightarrow> Inl InterfaceConversion))"

definition newEnvironment :: "environment \<Rightarrow> string \<Rightarrow> object \<Rightarrow> environment" where
  "newEnvironment p s v = Environment p s v"

definition extend :: "environment \<Rightarrow> string \<Rightarrow> object \<Rightarrow> environment" where
  "extend e s v = newEnvironment e s v"

fun lookup :: "environment \<Rightarrow> string \<Rightarrow> object" where
  "lookup NilEnv s = errorObjectf [''unknown identifier: '', [CHR 0x27], s, [CHR 0x27]]"
| "lookup (Environment p x v) s = (if s = x then v else lookup p s)"

text \<open>
  \<open>evalEnv\<close> and \<open>lamObject.apply\<close>. A program of this language may run forever, so the
  evaluator carries a fuel argument, the depth of nested \<open>evalEnv\<close> calls still allowed;
  \<open>None\<close> is fuel exhaustion, \<open>Some (Inl _)\<close> a panic, \<open>Some (Inr _)\<close> the object returned.
\<close>

fun evalEnv :: "(object \<Rightarrow> string) \<Rightarrow> nat \<Rightarrow> node \<Rightarrow> environment \<Rightarrow> (panic + object) option"
  and lamApply ::
    "(object \<Rightarrow> string) \<Rightarrow> nat \<Rightarrow> string \<Rightarrow> node \<Rightarrow> environment \<Rightarrow> object
       \<Rightarrow> (panic + object) option"
where
  "evalEnv addr 0 n env = None"
| "evalEnv addr (Suc k) n env =
     (case n of
        NodeApp f a \<Rightarrow>
          (case evalEnv addr k f env of
             None \<Rightarrow> None
           | Some (Inl e) \<Rightarrow> Some (Inl e)
           | Some (Inr fv) \<Rightarrow>
               if otyp fv = objectError then Some (Inr fv)
               else (case evalEnv addr k a env of
                       None \<Rightarrow> None
                     | Some (Inl e) \<Rightarrow> Some (Inl e)
                     | Some (Inr av) \<Rightarrow>
                         if otyp av = objectError then Some (Inr av)
                         else (case fv of
                                 FuncObject g \<Rightarrow> Some (funcApply addr g av)
                               | LamObject x b e \<Rightarrow> lamApply addr k x b e av
                               | _ \<Rightarrow>
                                   Some (Inr (errorObjectf
                                     [''apply: invalid function: '', [CHR 0x27],
                                      objectString addr fv, [CHR 0x27]])))))
      | NodeLam x b \<Rightarrow> Some (Inr (LamObject x b env))
      | NodeNumber i \<Rightarrow> Some (Inr (NumberObject i))
      | NodeBool v \<Rightarrow> Some (Inr (BoolObject v))
      | NodeIdentifier s \<Rightarrow> Some (Inr (lookup env s))
      | NodeError v \<Rightarrow>
          (case v of
             PlainString m \<Rightarrow> Some (Inr (errorObjectf [''parse error: '', m]))
           | _ \<Rightarrow> Some (Inl InterfaceConversion)))"
| "lamApply addr k x b e av = evalEnv addr k b (extend e x av)"

definition defaultEnvironment :: environment where
  "defaultEnvironment =
     extend (extend (newEnvironment NilEnv ''add'' builtinAdd) ''if'' builtinIf) ''gt'' builtinGt"

definition eval :: "(object \<Rightarrow> string) \<Rightarrow> nat \<Rightarrow> node \<Rightarrow> (panic + object) option" where
  "eval addr k n = evalEnv addr k n defaultEnvironment"

definition evalString :: "(object \<Rightarrow> string) \<Rightarrow> nat \<Rightarrow> string \<Rightarrow> (panic + object) option" where
  "evalString addr k s =
     (case parseString s of
        None \<Rightarrow> None
      | Some (Inl e) \<Rightarrow> Some (Inl e)
      | Some (Inr n) \<Rightarrow> eval addr k n)"

text \<open>A sample rendering of addresses, for running the model on concrete programs.\<close>

definition sampleAddr :: "object \<Rightarrow> string" where
  "sampleAddr obj = ''0xc000010000''"

section \<open>Fuel of the evaluator\<close>

text \<open>More fuel never changes a result of the evaluator.\<close>

lemma evalEnv_mono:
  "evalEnv addr k n env = Some r \<Longrightarrow> k \<le> m \<Longrightarrow> evalEnv addr m n env = Some r"
proof (induction k arbitrary: n env r m)
  case 0
  then show ?case by simp
next
  case (Suc k)
  from Suc.prems(2) obtain m' where m: "m = Suc m'" and km: "k \<le> m'"
    by (cases m) auto
  note IH = Suc.IH [OF _ km]
  show ?case
  proof (cases n)
    case (NodeApp f a)
    from Suc.prems(1) NodeApp obtain rf where rf: "evalEnv addr k f env = Some rf"
      by (auto split: option.splits)
    note rf' = IH [OF rf]
    show ?thesis
    proof (cases rf)
      case (Inl e)
      with Suc.prems(1) NodeApp rf rf' m show ?thesis by auto
    next
      case (Inr fv)
      show ?thesis
      proof (cases "otyp fv = objectError")
        case True
        with Suc.prems(1) NodeApp rf rf' m Inr show ?thesis by auto
      next
        case False
        from Suc.prems(1) NodeApp rf Inr False obtain ra where ra: "evalEnv addr k a env = Some ra"
          by (auto split: option.splits)
        note ra' = IH [OF ra]
        show ?thesis
        proof (cases ra)
          case (Inl e)
          with Suc.prems(1) NodeApp rf rf' ra ra' m Inr False show ?thesis by auto
        next
          case av: (Inr av)
          show ?thesis
          proof (cases "otyp av = objectError")
            case True
            with Suc.prems(1) NodeApp rf rf' ra ra' m Inr False av show ?thesis by auto
          next
            case nerr: False
            show ?thesis
            proof (cases fv)
              case (LamObject x b e)
              with Suc.prems(1) NodeApp rf ra Inr False av nerr
              have "evalEnv addr k b (extend e x av) = Some r" by simp
              from IH [OF this] NodeApp rf' ra' m Inr False av nerr LamObject
              show ?thesis by auto
            qed (use Suc.prems(1) NodeApp rf rf' ra ra' m Inr False av nerr in auto)
          qed
        qed
      qed
    qed
  qed (use Suc.prems(1) m in \<open>simp_all split: errorVal.splits\<close>)
qed

lemma eval_mono: "eval addr k n = Some r \<Longrightarrow> k \<le> m \<Longrightarrow> eval addr m n = Some r"
  unfolding eval_def by (rule evalEnv_mono)

lemma evalString_mono:
  "evalString addr k s = Some r \<Longrightarrow> k \<le> m \<Longrightarrow> evalString addr m s = Some r"
  unfolding evalString_def
  by (auto split: option.splits sum.splits dest: eval_mono)

section \<open>The incomplete-input predicate\<close>

lemma parseString_lam_x:
  "parseString ''lam x'' = Some (Inr (NodeError (ExpectError syntaxExpression tokenEOF)))"
  by code_simp



lemma isUnexpectedEOFError_iff:
  "isUnexpectedEOFError n \<longleftrightarrow> (\<exists>w. n = NodeError (ExpectError w tokenEOF))"
  by (auto simp: isUnexpectedEOFError_def split: node.splits errorVal.splits)


text \<open>
  Claim C9. The predicate \<open>isUnexpectedEOFError\<close> holds of a parse result exactly when
  it is an error node carrying an expected-versus-received mismatch whose received token
  is end-of-input; \<open>parse("lam x")\<close>, a lambda without a body, is such a node.
\<close>

theorem C9_incomplete_input:
  "(\<forall>n. isUnexpectedEOFError n = (\<exists>w. n = NodeError (ExpectError w tokenEOF)))
   \<and> parseString ''lam x'' = Some (Inr (NodeError (ExpectError syntaxExpression tokenEOF)))
   \<and> isUnexpectedEOFError (NodeError (ExpectError syntaxExpression tokenEOF))"
  by (simp add: isUnexpectedEOFError_iff parseString_lam_x)




section \<open>Environments and closures\<close>

fun frames :: "environment \<Rightarrow> (string \<times> object) list" where
  "frames NilEnv = []"
| "frames (Environment p x v) = (x, v) # frames p"

lemma lookup_frames:
  "lookup env s =
     (case map_of (frames env) s of
        Some v \<Rightarrow> v
      | None \<Rightarrow> ErrorObject (''unknown identifier: '' @ [CHR 0x27] @ s @ [CHR 0x27]))"
  by (induction env s rule: lookup.induct) (simp_all add: errorObjectf_def)

lemma lookup_shadow:
  "frames env = fs @ (x, v) # rest \<Longrightarrow> x \<notin> fst ` set fs \<Longrightarrow> lookup env x = v"
proof -
  assume fr: "frames env = fs @ (x, v) # rest" and nin: "x \<notin> fst ` set fs"
  from nin have "map_of fs x = None" by (simp add: map_of_eq_None_iff)
  then have "map_of (frames env) x = Some v"
    by (simp add: fr map_add_def)
  then show ?thesis by (simp add: lookup_frames)
qed

lemma eval_example_closure:
  "evalString addr 4 ''app app lam x lam y x 1 2'' = Some (Inr (NumberObject 1))"
  by code_simp

lemma eval_example_shadow:
  "evalString addr 4 ''app app lam x lam x x 1 2'' = Some (Inr (NumberObject 2))"
  by code_simp

section \<open>Application\<close>

lemma evalEnv_app_fn_error:
  assumes "evalEnv addr kf f env = Some (Inr fv)" and "otyp fv = objectError" and "kf \<le> m"
  shows "evalEnv addr (Suc m) (NodeApp f a) env = Some (Inr fv)"
  using evalEnv_mono [OF assms(1) assms(3)] assms(2) by simp

lemma evalEnv_app_fn_panic:
  assumes "evalEnv addr kf f env = Some (Inl e)" and "kf \<le> m"
  shows "evalEnv addr (Suc m) (NodeApp f a) env = Some (Inl e)"
  using evalEnv_mono [OF assms(1) assms(2)] by simp

lemma evalEnv_app_arg_error:
  assumes "evalEnv addr kf f env = Some (Inr fv)" and "otyp fv \<noteq> objectError" and "kf \<le> m"
    and "evalEnv addr ka a env = Some (Inr av)" and "otyp av = objectError" and "ka \<le> m"
  shows "evalEnv addr (Suc m) (NodeApp f a) env = Some (Inr av)"
  using evalEnv_mono [OF assms(1) assms(3)] evalEnv_mono [OF assms(4) assms(6)] assms(2,5)
  by simp

lemma evalEnv_app_apply:
  assumes "evalEnv addr kf f env = Some (Inr fv)" and "otyp fv \<noteq> objectError" and "kf \<le> m"
    and "evalEnv addr ka a env = Some (Inr av)" and "otyp av \<noteq> objectError" and "ka \<le> m"
  shows "evalEnv addr (Suc m) (NodeApp f a) env =
           (case fv of
              FuncObject g \<Rightarrow> Some (funcApply addr g av)
            | LamObject x b e \<Rightarrow> lamApply addr m x b e av
            | _ \<Rightarrow> Some (Inr (ErrorObject (''apply: invalid function: '' @ [CHR 0x27]
                                           @ objectString addr fv @ [CHR 0x27]))))"
  using evalEnv_mono [OF assms(1) assms(3)] evalEnv_mono [OF assms(4) assms(6)] assms(2,5)
  by (simp add: errorObjectf_def split: object.splits)

text \<open>
  Claim C1. In an application node the function subexpression is evaluated first. If it
  yields an error object, that object is the result whatever the argument subexpression
  is (the argument is not evaluated: the result does not depend on it). Otherwise the
  argument is evaluated, and an error object it yields is the result, the function not
  being invoked. Only with two objects that are not errors is the function value applied:
  a builtin runs, a closure evaluates its body, and any other value gives the error object
  \<open>apply: invalid function\<close>, not a panic.
\<close>

theorem C1_application_order:
  "(\<forall>kf fv. evalEnv addr kf f env = Some (Inr fv) \<and> otyp fv = objectError \<and> kf \<le> m \<longrightarrow>
       evalEnv addr (Suc m) (NodeApp f a) env = Some (Inr fv))
   \<and> (\<forall>kf ka fv av.
         evalEnv addr kf f env = Some (Inr fv) \<and> otyp fv \<noteq> objectError \<and> kf \<le> m
         \<and> evalEnv addr ka a env = Some (Inr av) \<and> otyp av = objectError \<and> ka \<le> m \<longrightarrow>
       evalEnv addr (Suc m) (NodeApp f a) env = Some (Inr av))
   \<and> (\<forall>kf ka fv av.
         evalEnv addr kf f env = Some (Inr fv) \<and> otyp fv \<noteq> objectError \<and> kf \<le> m
         \<and> evalEnv addr ka a env = Some (Inr av) \<and> otyp av \<noteq> objectError \<and> ka \<le> m \<longrightarrow>
       evalEnv addr (Suc m) (NodeApp f a) env =
         (case fv of
            FuncObject g \<Rightarrow> Some (funcApply addr g av)
          | LamObject x b e \<Rightarrow> lamApply addr m x b e av
          | _ \<Rightarrow> Some (Inr (ErrorObject (''apply: invalid function: '' @ [CHR 0x27]
                                         @ objectString addr fv @ [CHR 0x27])))))
   \<and> (\<forall>kf ka fv av.
         evalEnv addr kf f env = Some (Inr fv) \<and> otyp fv \<noteq> objectError \<and> kf \<le> m
         \<and> evalEnv addr ka a env = Some (Inr av) \<and> otyp av \<noteq> objectError \<and> ka \<le> m
         \<and> otyp fv \<noteq> objectFunc \<and> otyp fv \<noteq> objectLam \<longrightarrow>
       evalEnv addr (Suc m) (NodeApp f a) env =
         Some (Inr (ErrorObject (''apply: invalid function: '' @ [CHR 0x27]
                                 @ objectString addr fv @ [CHR 0x27]))))"
proof (intro conjI allI impI)
  fix kf fv
  assume "evalEnv addr kf f env = Some (Inr fv) \<and> otyp fv = objectError \<and> kf \<le> m"
  then show "evalEnv addr (Suc m) (NodeApp f a) env = Some (Inr fv)"
    by (blast intro: evalEnv_app_fn_error)
next
  fix kf ka fv av
  assume "evalEnv addr kf f env = Some (Inr fv) \<and> otyp fv \<noteq> objectError \<and> kf \<le> m
         \<and> evalEnv addr ka a env = Some (Inr av) \<and> otyp av = objectError \<and> ka \<le> m"
  then show "evalEnv addr (Suc m) (NodeApp f a) env = Some (Inr av)"
    by (blast intro: evalEnv_app_arg_error)
next
  fix kf ka fv av
  assume "evalEnv addr kf f env = Some (Inr fv) \<and> otyp fv \<noteq> objectError \<and> kf \<le> m
         \<and> evalEnv addr ka a env = Some (Inr av) \<and> otyp av \<noteq> objectError \<and> ka \<le> m"
  then show "evalEnv addr (Suc m) (NodeApp f a) env =
         (case fv of
            FuncObject g \<Rightarrow> Some (funcApply addr g av)
          | LamObject x b e \<Rightarrow> lamApply addr m x b e av
          | _ \<Rightarrow> Some (Inr (ErrorObject (''apply: invalid function: '' @ [CHR 0x27]
                                         @ objectString addr fv @ [CHR 0x27]))))"
    by (blast intro: evalEnv_app_apply)
next
  fix kf ka fv av
  assume h: "evalEnv addr kf f env = Some (Inr fv) \<and> otyp fv \<noteq> objectError \<and> kf \<le> m
         \<and> evalEnv addr ka a env = Some (Inr av) \<and> otyp av \<noteq> objectError \<and> ka \<le> m
         \<and> otyp fv \<noteq> objectFunc \<and> otyp fv \<noteq> objectLam"
  then have "evalEnv addr (Suc m) (NodeApp f a) env =
         (case fv of
            FuncObject g \<Rightarrow> Some (funcApply addr g av)
          | LamObject x b e \<Rightarrow> lamApply addr m x b e av
          | _ \<Rightarrow> Some (Inr (ErrorObject (''apply: invalid function: '' @ [CHR 0x27]
                                         @ objectString addr fv @ [CHR 0x27]))))"
    by (blast intro: evalEnv_app_apply)
  with h show "evalEnv addr (Suc m) (NodeApp f a) env =
         Some (Inr (ErrorObject (''apply: invalid function: '' @ [CHR 0x27]
                                 @ objectString addr fv @ [CHR 0x27])))"
    by (cases fv) simp_all
qed

text \<open>A program whose evaluation does not end, used as an argument that must not be evaluated.\<close>

definition omegaNode :: node where
  "omegaNode =
     NodeApp (NodeLam ''x'' (NodeApp (NodeIdentifier ''x'') (NodeIdentifier ''x'')))
             (NodeLam ''x'' (NodeApp (NodeIdentifier ''x'') (NodeIdentifier ''x'')))"

lemma unknown_x:
  "evalEnv sampleAddr 1 (NodeIdentifier ''x'') defaultEnvironment =
     Some (Inr (ErrorObject (''unknown identifier: '' @ [CHR 0x27] @ ''x'' @ [CHR 0x27])))"
  by code_simp

lemma unknown_y:
  "evalEnv sampleAddr 1 (NodeIdentifier ''y'') defaultEnvironment =
     Some (Inr (ErrorObject (''unknown identifier: '' @ [CHR 0x27] @ ''y'' @ [CHR 0x27])))"
  by code_simp

lemma known_add:
  "evalEnv sampleAddr 1 (NodeIdentifier ''add'') defaultEnvironment = Some (Inr (FuncObject AddFn))"
  by code_simp

lemma literal_true:
  "evalEnv sampleAddr 1 (NodeBool True) defaultEnvironment = Some (Inr (BoolObject True))"
  by code_simp

lemma literal_one:
  "evalEnv sampleAddr 1 (NodeNumber 1) defaultEnvironment = Some (Inr (NumberObject 1))"
  by code_simp

lemma omega_out_of_fuel: "evalEnv sampleAddr 10 omegaNode defaultEnvironment = None"
  by code_simp

theorem C1_application_order_witness:
  "evalEnv sampleAddr 10 omegaNode defaultEnvironment = None
   \<and> evalEnv sampleAddr (Suc 10) (NodeApp (NodeIdentifier ''x'') omegaNode) defaultEnvironment =
       Some (Inr (ErrorObject (''unknown identifier: '' @ [CHR 0x27] @ ''x'' @ [CHR 0x27])))
   \<and> evalEnv sampleAddr (Suc 1) (NodeApp (NodeIdentifier ''add'') (NodeIdentifier ''y''))
         defaultEnvironment =
       Some (Inr (ErrorObject (''unknown identifier: '' @ [CHR 0x27] @ ''y'' @ [CHR 0x27])))
   \<and> evalEnv sampleAddr (Suc 1) (NodeApp (NodeBool True) (NodeNumber 1)) defaultEnvironment =
       Some (Inr (ErrorObject (''apply: invalid function: '' @ [CHR 0x27] @ ''true'' @ [CHR 0x27])))"
proof -
  have h1: "evalEnv sampleAddr 1 (NodeIdentifier ''x'') defaultEnvironment =
              Some (Inr (ErrorObject (''unknown identifier: '' @ [CHR 0x27] @ ''x'' @ [CHR 0x27])))
            \<and> otyp (ErrorObject (''unknown identifier: '' @ [CHR 0x27] @ ''x'' @ [CHR 0x27]))
                = objectError
            \<and> (1::nat) \<le> 10"
    using unknown_x by simp
  have h2: "evalEnv sampleAddr 1 (NodeIdentifier ''add'') defaultEnvironment =
              Some (Inr (FuncObject AddFn))
            \<and> otyp (FuncObject AddFn) \<noteq> objectError \<and> (1::nat) \<le> 1
            \<and> evalEnv sampleAddr 1 (NodeIdentifier ''y'') defaultEnvironment =
              Some (Inr (ErrorObject (''unknown identifier: '' @ [CHR 0x27] @ ''y'' @ [CHR 0x27])))
            \<and> otyp (ErrorObject (''unknown identifier: '' @ [CHR 0x27] @ ''y'' @ [CHR 0x27]))
                = objectError
            \<and> (1::nat) \<le> 1"
    using known_add unknown_y by simp
  have h3: "evalEnv sampleAddr 1 (NodeBool True) defaultEnvironment = Some (Inr (BoolObject True))
            \<and> otyp (BoolObject True) \<noteq> objectError \<and> (1::nat) \<le> 1
            \<and> evalEnv sampleAddr 1 (NodeNumber 1) defaultEnvironment = Some (Inr (NumberObject 1))
            \<and> otyp (NumberObject 1) \<noteq> objectError \<and> (1::nat) \<le> 1
            \<and> otyp (BoolObject True) \<noteq> objectFunc \<and> otyp (BoolObject True) \<noteq> objectLam"
    using literal_true literal_one by simp
  note T1 = C1_application_order [of sampleAddr "NodeIdentifier ''x''" defaultEnvironment 10 omegaNode]
  note T2 = C1_application_order [of sampleAddr "NodeIdentifier ''add''" defaultEnvironment 1
                                     "NodeIdentifier ''y''"]
  note T3 = C1_application_order [of sampleAddr "NodeBool True" defaultEnvironment 1 "NodeNumber 1"]
  have r1: "evalEnv sampleAddr (Suc 10) (NodeApp (NodeIdentifier ''x'') omegaNode) defaultEnvironment =
       Some (Inr (ErrorObject (''unknown identifier: '' @ [CHR 0x27] @ ''x'' @ [CHR 0x27])))"
    using T1 [THEN conjunct1, rule_format, OF h1] .
  have r2: "evalEnv sampleAddr (Suc 1) (NodeApp (NodeIdentifier ''add'') (NodeIdentifier ''y''))
         defaultEnvironment =
       Some (Inr (ErrorObject (''unknown identifier: '' @ [CHR 0x27] @ ''y'' @ [CHR 0x27])))"
    using T2 [THEN conjunct2, THEN conjunct1, rule_format, OF h2] .
  have r3: "evalEnv sampleAddr (Suc 1) (NodeApp (NodeBool True) (NodeNumber 1)) defaultEnvironment =
       Some (Inr (ErrorObject (''apply: invalid function: '' @ [CHR 0x27]
                               @ objectString sampleAddr (BoolObject True) @ [CHR 0x27])))"
    using T3 [THEN conjunct2, THEN conjunct2, THEN conjunct2, rule_format, OF h3] .
  from r3 have r3': "evalEnv sampleAddr (Suc 1) (NodeApp (NodeBool True) (NodeNumber 1))
       defaultEnvironment =
       Some (Inr (ErrorObject (''apply: invalid function: '' @ [CHR 0x27] @ ''true'' @ [CHR 0x27])))"
    by simp
  show ?thesis using omega_out_of_fuel r1 r2 r3' by (intro conjI)
qed

section \<open>Closures\<close>

text \<open>
  Claim C2. A lambda node evaluates to a closure holding the environment current at its
  creation. Applying the closure evaluates its body in the captured environment
  extended with one frame that binds the parameter to the argument. Lookup returns the
  value of the innermost frame with the symbol (\<open>frames\<close> lists the frames innermost
  first), so a binding shadows every binding of the same name further out. The program
  \<open>app app lam x lam y x 1 2\<close> evaluates to the number 1, and with both parameters
  named \<open>x\<close> the inner one wins.
\<close>

theorem C2_closures_and_lookup:
  "evalEnv addr (Suc k) (NodeLam x b) env = Some (Inr (LamObject x b env))
   \<and> (\<forall>kf ka f a y c e av.
         evalEnv addr kf f env = Some (Inr (LamObject y c e)) \<and> kf \<le> m
         \<and> evalEnv addr ka a env = Some (Inr av) \<and> otyp av \<noteq> objectError \<and> ka \<le> m \<longrightarrow>
       evalEnv addr (Suc m) (NodeApp f a) env = evalEnv addr m c (Environment e y av))
   \<and> evalEnv addr (Suc k) (NodeIdentifier s) env = Some (Inr (lookup env s))
   \<and> lookup env s =
       (case map_of (frames env) s of
          Some v \<Rightarrow> v
        | None \<Rightarrow> ErrorObject (''unknown identifier: '' @ [CHR 0x27] @ s @ [CHR 0x27]))
   \<and> (\<forall>fs v rest. frames env = fs @ (s, v) # rest \<and> s \<notin> fst ` set fs \<longrightarrow> lookup env s = v)
   \<and> lookup (extend env s w) s = w
   \<and> (\<forall>n. 4 \<le> n \<longrightarrow>
         evalString addr n ''app app lam x lam y x 1 2'' = Some (Inr (NumberObject 1)))
   \<and> (\<forall>n. 4 \<le> n \<longrightarrow>
         evalString addr n ''app app lam x lam x x 1 2'' = Some (Inr (NumberObject 2)))"
proof (intro conjI allI impI)
  show "evalEnv addr (Suc k) (NodeLam x b) env = Some (Inr (LamObject x b env))"
    by simp
next
  fix kf ka f a y c e av
  assume h: "evalEnv addr kf f env = Some (Inr (LamObject y c e)) \<and> kf \<le> m
         \<and> evalEnv addr ka a env = Some (Inr av) \<and> otyp av \<noteq> objectError \<and> ka \<le> m"
  have "otyp (LamObject y c e) \<noteq> objectError" by simp
  with h have "evalEnv addr (Suc m) (NodeApp f a) env =
           (case LamObject y c e of
              FuncObject g \<Rightarrow> Some (funcApply addr g av)
            | LamObject x b e \<Rightarrow> lamApply addr m x b e av
            | _ \<Rightarrow> Some (Inr (ErrorObject (''apply: invalid function: '' @ [CHR 0x27]
                                           @ objectString addr (LamObject y c e) @ [CHR 0x27]))))"
    by (blast intro: evalEnv_app_apply)
  then show "evalEnv addr (Suc m) (NodeApp f a) env = evalEnv addr m c (Environment e y av)"
    by (simp add: extend_def newEnvironment_def)
next
  show "evalEnv addr (Suc k) (NodeIdentifier s) env = Some (Inr (lookup env s))"
    by simp
next
  show "lookup env s =
       (case map_of (frames env) s of
          Some v \<Rightarrow> v
        | None \<Rightarrow> ErrorObject (''unknown identifier: '' @ [CHR 0x27] @ s @ [CHR 0x27]))"
    by (rule lookup_frames)
next
  fix fs v rest
  assume "frames env = fs @ (s, v) # rest \<and> s \<notin> fst ` set fs"
  then show "lookup env s = v"
    by (blast intro: lookup_shadow)
next
  show "lookup (extend env s w) s = w"
    by (simp add: extend_def newEnvironment_def)
next
  fix n :: nat
  assume "4 \<le> n"
  then show "evalString addr n ''app app lam x lam y x 1 2'' = Some (Inr (NumberObject 1))"
    by (rule evalString_mono [OF eval_example_closure])
next
  fix n :: nat
  assume "4 \<le> n"
  then show "evalString addr n ''app app lam x lam x x 1 2'' = Some (Inr (NumberObject 2))"
    by (rule evalString_mono [OF eval_example_shadow])
qed

lemma frames_example:
  "frames (Environment (Environment (Environment NilEnv ''x'' (NumberObject 1)) ''x'' (NumberObject 2))
                       ''y'' (NumberObject 3))
   = [(''y'', NumberObject 3)] @ (''x'', NumberObject 2) # [(''x'', NumberObject 1)]
   \<and> ''x'' \<notin> fst ` set [(''y'', NumberObject 3)]"
  by simp

lemma eval_lam_id:
  "evalEnv sampleAddr 1 (NodeLam ''x'' (NodeIdentifier ''x'')) NilEnv =
     Some (Inr (LamObject ''x'' (NodeIdentifier ''x'') NilEnv))"
  by code_simp

lemma eval_seven: "evalEnv sampleAddr 1 (NodeNumber 7) NilEnv = Some (Inr (NumberObject 7))"
  by code_simp

lemma eval_id_body:
  "evalEnv sampleAddr 1 (NodeIdentifier ''x'') (Environment NilEnv ''x'' (NumberObject 7)) =
     Some (Inr (NumberObject 7))"
  by code_simp

theorem C2_closures_and_lookup_witness:
  "evalEnv sampleAddr (Suc 1) (NodeApp (NodeLam ''x'' (NodeIdentifier ''x'')) (NodeNumber 7)) NilEnv =
     Some (Inr (NumberObject 7))
   \<and> lookup (Environment (Environment (Environment NilEnv ''x'' (NumberObject 1))
                                      ''x'' (NumberObject 2)) ''y'' (NumberObject 3)) ''x''
       = NumberObject 2
   \<and> evalString sampleAddr 4 ''app app lam x lam y x 1 2'' = Some (Inr (NumberObject 1))
   \<and> evalString sampleAddr 4 ''app app lam x lam x x 1 2'' = Some (Inr (NumberObject 2))"
proof -
  note T = C2_closures_and_lookup
  have h: "evalEnv sampleAddr 1 (NodeLam ''x'' (NodeIdentifier ''x'')) NilEnv =
             Some (Inr (LamObject ''x'' (NodeIdentifier ''x'') NilEnv)) \<and> (1::nat) \<le> 1
           \<and> evalEnv sampleAddr 1 (NodeNumber 7) NilEnv = Some (Inr (NumberObject 7))
           \<and> otyp (NumberObject 7) \<noteq> objectError \<and> (1::nat) \<le> 1"
    using eval_lam_id eval_seven by simp
  have "evalEnv sampleAddr (Suc 1) (NodeApp (NodeLam ''x'' (NodeIdentifier ''x'')) (NodeNumber 7)) NilEnv
        = evalEnv sampleAddr 1 (NodeIdentifier ''x'') (Environment NilEnv ''x'' (NumberObject 7))"
    using T [of sampleAddr _ _ _ NilEnv 1, THEN conjunct2, THEN conjunct1, rule_format, OF h] .
  then have r1: "evalEnv sampleAddr (Suc 1) (NodeApp (NodeLam ''x'' (NodeIdentifier ''x'')) (NodeNumber 7))
        NilEnv = Some (Inr (NumberObject 7))"
    using eval_id_body by simp
  have r2: "lookup (Environment (Environment (Environment NilEnv ''x'' (NumberObject 1))
                                      ''x'' (NumberObject 2)) ''y'' (NumberObject 3)) ''x''
       = NumberObject 2"
    using T [THEN conjunct2, THEN conjunct2, THEN conjunct2, THEN conjunct2, THEN conjunct1,
             rule_format, OF frames_example] .
  have le: "(4::nat) \<le> 4" by simp
  have r3: "evalString sampleAddr 4 ''app app lam x lam y x 1 2'' = Some (Inr (NumberObject 1))"
    using T [THEN conjunct2, THEN conjunct2, THEN conjunct2, THEN conjunct2, THEN conjunct2,
             THEN conjunct2, THEN conjunct1, rule_format, OF le] .
  have r4: "evalString sampleAddr 4 ''app app lam x lam x x 1 2'' = Some (Inr (NumberObject 2))"
    using T [THEN conjunct2, THEN conjunct2, THEN conjunct2, THEN conjunct2, THEN conjunct2,
             THEN conjunct2, THEN conjunct2, rule_format, OF le] .
  show ?thesis using r1 r2 r3 r4 by (intro conjI)
qed

section \<open>The builtin add\<close>

lemma eval_add_false_1:
  "evalString addr 3 ''app app add false 1'' =
     Some (Inr (ErrorObject (''add: not a number: '' @ [CHR 0x27] @ ''false'' @ [CHR 0x27])))"
  by code_simp

lemma eval_add_1_true:
  "evalString addr 3 ''app app add 1 true'' =
     Some (Inr (ErrorObject (''add: not a number: '' @ [CHR 0x27] @ ''true'' @ [CHR 0x27])))"
  by code_simp

lemma evalEnv_add_numbers:
  assumes f: "evalEnv addr kf f env = Some (Inr builtinAdd)" and kf: "kf \<le> m"
    and a: "evalEnv addr ka a env = Some (Inr (NumberObject x))" and ka: "ka \<le> m"
    and b: "evalEnv addr kb b env = Some (Inr (NumberObject y))" and kb: "kb \<le> Suc m"
  shows "evalEnv addr (Suc (Suc m)) (NodeApp (NodeApp f a) b) env = Some (Inr (NumberObject (x + y)))"
proof -
  have "evalEnv addr (Suc m) (NodeApp f a) env = Some (Inr (FuncObject (AddFn1 (NumberObject x))))"
    using evalEnv_app_apply [OF f _ kf a _ ka] by (simp add: builtinAdd_def)
  from evalEnv_app_apply [OF this _ le_refl b _ kb] show ?thesis by simp
qed

text \<open>
  Claim C5. The builtin \<open>add\<close>, given two numbers one after the other, returns their
  sum as an unbounded integer. Given a first or a second argument that is not a number it
  returns the error object \<open>add: not a number: '<value>'\<close>, where the value is the
  rendering of that argument: \<open>app app add false 1\<close> names \<open>false\<close>, and
  \<open>app app add 1 true\<close> names \<open>true\<close>.
\<close>

theorem C5_builtin_add:
  "lookup defaultEnvironment ''add'' = builtinAdd
   \<and> funcApply addr AddFn (NumberObject x) = Inr (FuncObject (AddFn1 (NumberObject x)))
   \<and> funcApply addr (AddFn1 (NumberObject x)) (NumberObject y) = Inr (NumberObject (x + y))
   \<and> (\<forall>a. otyp a \<noteq> objectNumber \<longrightarrow>
         funcApply addr AddFn a =
           Inr (ErrorObject (''add: not a number: '' @ [CHR 0x27] @ objectString addr a @ [CHR 0x27])))
   \<and> (\<forall>a b. otyp b \<noteq> objectNumber \<longrightarrow>
         funcApply addr (AddFn1 a) b =
           Inr (ErrorObject (''add: not a number: '' @ [CHR 0x27] @ objectString addr b @ [CHR 0x27])))
   \<and> (\<forall>f a b env kf ka kb m.
         evalEnv addr kf f env = Some (Inr builtinAdd) \<and> kf \<le> m
         \<and> evalEnv addr ka a env = Some (Inr (NumberObject x)) \<and> ka \<le> m
         \<and> evalEnv addr kb b env = Some (Inr (NumberObject y)) \<and> kb \<le> Suc m \<longrightarrow>
         evalEnv addr (Suc (Suc m)) (NodeApp (NodeApp f a) b) env = Some (Inr (NumberObject (x + y))))
   \<and> (\<forall>n. 3 \<le> n \<longrightarrow>
         evalString addr n ''app app add false 1'' =
           Some (Inr (ErrorObject (''add: not a number: '' @ [CHR 0x27] @ ''false'' @ [CHR 0x27]))))
   \<and> (\<forall>n. 3 \<le> n \<longrightarrow>
         evalString addr n ''app app add 1 true'' =
           Some (Inr (ErrorObject (''add: not a number: '' @ [CHR 0x27] @ ''true'' @ [CHR 0x27]))))"
proof (intro conjI allI impI)
  show "lookup defaultEnvironment ''add'' = builtinAdd"
    by (simp add: defaultEnvironment_def extend_def newEnvironment_def)
next
  show "funcApply addr AddFn (NumberObject x) = Inr (FuncObject (AddFn1 (NumberObject x)))"
    by simp
next
  show "funcApply addr (AddFn1 (NumberObject x)) (NumberObject y) = Inr (NumberObject (x + y))"
    by simp
next
  fix a assume "otyp a \<noteq> objectNumber"
  then show "funcApply addr AddFn a =
           Inr (ErrorObject (''add: not a number: '' @ [CHR 0x27] @ objectString addr a @ [CHR 0x27]))"
    by (simp add: errorObjectf_def)
next
  fix a b assume "otyp b \<noteq> objectNumber"
  then show "funcApply addr (AddFn1 a) b =
           Inr (ErrorObject (''add: not a number: '' @ [CHR 0x27] @ objectString addr b @ [CHR 0x27]))"
    by (simp add: errorObjectf_def)
next
  fix f a b env kf ka kb m
  assume "evalEnv addr kf f env = Some (Inr builtinAdd) \<and> kf \<le> m
         \<and> evalEnv addr ka a env = Some (Inr (NumberObject x)) \<and> ka \<le> m
         \<and> evalEnv addr kb b env = Some (Inr (NumberObject y)) \<and> kb \<le> Suc m"
  then show "evalEnv addr (Suc (Suc m)) (NodeApp (NodeApp f a) b) env
             = Some (Inr (NumberObject (x + y)))"
    by (blast intro: evalEnv_add_numbers)
next
  fix n :: nat assume "3 \<le> n"
  then show "evalString addr n ''app app add false 1'' =
           Some (Inr (ErrorObject (''add: not a number: '' @ [CHR 0x27] @ ''false'' @ [CHR 0x27])))"
    by (rule evalString_mono [OF eval_add_false_1])
next
  fix n :: nat assume "3 \<le> n"
  then show "evalString addr n ''app app add 1 true'' =
           Some (Inr (ErrorObject (''add: not a number: '' @ [CHR 0x27] @ ''true'' @ [CHR 0x27])))"
    by (rule evalString_mono [OF eval_add_1_true])
qed

lemma eval_big:
  "evalEnv sampleAddr 1 (NodeNumber 18446744073709551616) defaultEnvironment =
     Some (Inr (NumberObject 18446744073709551616))"
  by code_simp

lemma eval_minus_seven:
  "evalEnv sampleAddr 1 (NodeNumber (- 7)) defaultEnvironment = Some (Inr (NumberObject (- 7)))"
  by code_simp

theorem C5_builtin_add_witness:
  "funcApply sampleAddr AddFn (BoolObject False) =
     Inr (ErrorObject (''add: not a number: '' @ [CHR 0x27] @ ''false'' @ [CHR 0x27]))
   \<and> funcApply sampleAddr (AddFn1 (NumberObject 1)) (BoolObject True) =
     Inr (ErrorObject (''add: not a number: '' @ [CHR 0x27] @ ''true'' @ [CHR 0x27]))
   \<and> evalEnv sampleAddr (Suc (Suc 1))
        (NodeApp (NodeApp (NodeIdentifier ''add'') (NodeNumber 18446744073709551616))
                 (NodeNumber (- 7))) defaultEnvironment =
     Some (Inr (NumberObject 18446744073709551609))
   \<and> evalString sampleAddr 3 ''app app add false 1'' =
     Some (Inr (ErrorObject (''add: not a number: '' @ [CHR 0x27] @ ''false'' @ [CHR 0x27])))
   \<and> evalString sampleAddr 3 ''app app add 1 true'' =
     Some (Inr (ErrorObject (''add: not a number: '' @ [CHR 0x27] @ ''true'' @ [CHR 0x27])))"
proof -
  note T = C5_builtin_add [of sampleAddr 18446744073709551616 "- 7"]
  have nb: "otyp (BoolObject False) \<noteq> objectNumber" by simp
  have nb': "otyp (BoolObject True) \<noteq> objectNumber" by simp
  have r1: "funcApply sampleAddr AddFn (BoolObject False) =
     Inr (ErrorObject (''add: not a number: '' @ [CHR 0x27]
                       @ objectString sampleAddr (BoolObject False) @ [CHR 0x27]))"
    using T [THEN conjunct2, THEN conjunct2, THEN conjunct2, THEN conjunct1, rule_format, OF nb] .
  have r2: "funcApply sampleAddr (AddFn1 (NumberObject 1)) (BoolObject True) =
     Inr (ErrorObject (''add: not a number: '' @ [CHR 0x27]
                       @ objectString sampleAddr (BoolObject True) @ [CHR 0x27]))"
    using T [THEN conjunct2, THEN conjunct2, THEN conjunct2, THEN conjunct2, THEN conjunct1,
             rule_format, OF nb'] .
  have h: "evalEnv sampleAddr 1 (NodeIdentifier ''add'') defaultEnvironment = Some (Inr builtinAdd)
           \<and> (1::nat) \<le> 1
           \<and> evalEnv sampleAddr 1 (NodeNumber 18446744073709551616) defaultEnvironment =
               Some (Inr (NumberObject 18446744073709551616)) \<and> (1::nat) \<le> 1
           \<and> evalEnv sampleAddr 1 (NodeNumber (- 7)) defaultEnvironment =
               Some (Inr (NumberObject (- 7))) \<and> (1::nat) \<le> Suc 1"
    using known_add eval_big eval_minus_seven by (simp add: builtinAdd_def)
  have "evalEnv sampleAddr (Suc (Suc 1))
        (NodeApp (NodeApp (NodeIdentifier ''add'') (NodeNumber 18446744073709551616))
                 (NodeNumber (- 7))) defaultEnvironment =
     Some (Inr (NumberObject (18446744073709551616 + - 7)))"
    using T [THEN conjunct2, THEN conjunct2, THEN conjunct2, THEN conjunct2, THEN conjunct2,
             THEN conjunct1, rule_format, OF h] .
  then have r3: "evalEnv sampleAddr (Suc (Suc 1))
        (NodeApp (NodeApp (NodeIdentifier ''add'') (NodeNumber 18446744073709551616))
                 (NodeNumber (- 7))) defaultEnvironment =
     Some (Inr (NumberObject 18446744073709551609))"
    by simp
  have le: "(3::nat) \<le> 3" by simp
  have r4: "evalString sampleAddr 3 ''app app add false 1'' =
     Some (Inr (ErrorObject (''add: not a number: '' @ [CHR 0x27] @ ''false'' @ [CHR 0x27])))"
    using T [THEN conjunct2, THEN conjunct2, THEN conjunct2, THEN conjunct2, THEN conjunct2,
             THEN conjunct2, THEN conjunct1, rule_format, OF le] .
  have r5: "evalString sampleAddr 3 ''app app add 1 true'' =
     Some (Inr (ErrorObject (''add: not a number: '' @ [CHR 0x27] @ ''true'' @ [CHR 0x27])))"
    using T [THEN conjunct2, THEN conjunct2, THEN conjunct2, THEN conjunct2, THEN conjunct2,
             THEN conjunct2, THEN conjunct2, rule_format, OF le] .
  from r1 have r1': "funcApply sampleAddr AddFn (BoolObject False) =
     Inr (ErrorObject (''add: not a number: '' @ [CHR 0x27] @ ''false'' @ [CHR 0x27]))"
    by simp
  from r2 have r2': "funcApply sampleAddr (AddFn1 (NumberObject 1)) (BoolObject True) =
     Inr (ErrorObject (''add: not a number: '' @ [CHR 0x27] @ ''true'' @ [CHR 0x27]))"
    by simp
  show ?thesis using r1' r2' r3 r4 r5 by (intro conjI)
qed

section \<open>The builtin if\<close>

lemma evalEnv_if_not_bool:
  assumes f: "evalEnv addr kf f env = Some (Inr builtinIf)" and kf: "kf \<le> m"
    and c: "evalEnv addr kc c env = Some (Inr cv)" and kc: "kc \<le> m"
    and nb: "otyp cv \<noteq> objectBool" and ne: "otyp cv \<noteq> objectError"
  shows "evalEnv addr (Suc (Suc (Suc m))) (NodeApp (NodeApp (NodeApp f c) t) e) env =
           Some (Inr (ErrorObject (''if: not a bool: '' @ [CHR 0x27] @ objectString addr cv
                                   @ [CHR 0x27])))"
proof -
  let ?err = "ErrorObject (''if: not a bool: '' @ [CHR 0x27] @ objectString addr cv @ [CHR 0x27])"
  have 1: "evalEnv addr (Suc m) (NodeApp f c) env = Some (Inr ?err)"
    using evalEnv_app_apply [OF f _ kf c ne kc] nb by (simp add: builtinIf_def errorObjectf_def)
  have 2: "evalEnv addr (Suc (Suc m)) (NodeApp (NodeApp f c) t) env = Some (Inr ?err)"
    by (rule evalEnv_app_fn_error [OF 1]) simp_all
  show ?thesis
    by (rule evalEnv_app_fn_error [OF 2]) simp_all
qed

lemma evalEnv_if_first_branch_error:
  assumes f: "evalEnv addr kf f env = Some (Inr builtinIf)" and kf: "kf \<le> m"
    and c: "evalEnv addr kc c env = Some (Inr (BoolObject v))" and kc: "kc \<le> m"
    and t: "evalEnv addr kt t env = Some (Inr tv)" and kt: "kt \<le> Suc m"
    and te: "otyp tv = objectError"
  shows "evalEnv addr (Suc (Suc (Suc m))) (NodeApp (NodeApp (NodeApp f c) t) e) env = Some (Inr tv)"
proof -
  have 1: "evalEnv addr (Suc m) (NodeApp f c) env = Some (Inr (FuncObject (IfFn1 (BoolObject v))))"
    using evalEnv_app_apply [OF f _ kf c _ kc] by (simp add: builtinIf_def)
  have 2: "evalEnv addr (Suc (Suc m)) (NodeApp (NodeApp f c) t) env = Some (Inr tv)"
    by (rule evalEnv_app_arg_error [OF 1 _ le_refl t te kt]) simp
  show ?thesis
    by (rule evalEnv_app_fn_error [OF 2 te]) simp
qed

lemma evalEnv_if_branches:
  assumes f: "evalEnv addr kf f env = Some (Inr builtinIf)" and kf: "kf \<le> m"
    and c: "evalEnv addr kc c env = Some (Inr (BoolObject v))" and kc: "kc \<le> m"
    and t: "evalEnv addr kt t env = Some (Inr tv)" and kt: "kt \<le> Suc m"
    and te: "otyp tv \<noteq> objectError"
    and e: "evalEnv addr ke e env = Some (Inr ev)" and ke: "ke \<le> Suc (Suc m)"
  shows "evalEnv addr (Suc (Suc (Suc m))) (NodeApp (NodeApp (NodeApp f c) t) e) env =
           Some (Inr (if otyp ev = objectError then ev else if v then tv else ev))"
proof -
  have 1: "evalEnv addr (Suc m) (NodeApp f c) env = Some (Inr (FuncObject (IfFn1 (BoolObject v))))"
    using evalEnv_app_apply [OF f _ kf c _ kc] by (simp add: builtinIf_def)
  have 2: "evalEnv addr (Suc (Suc m)) (NodeApp (NodeApp f c) t) env =
             Some (Inr (FuncObject (IfFn2 (BoolObject v) tv)))"
    using evalEnv_app_apply [OF 1 _ le_refl t te kt] by simp
  show ?thesis
  proof (cases "otyp ev = objectError")
    case True
    have "evalEnv addr (Suc (Suc (Suc m))) (NodeApp (NodeApp (NodeApp f c) t) e) env = Some (Inr ev)"
      by (rule evalEnv_app_arg_error [OF 2 _ le_refl e True ke]) simp
    with True show ?thesis by simp
  next
    case False
    from evalEnv_app_apply [OF 2 _ le_refl e False ke] False show ?thesis by simp
  qed
qed

lemma eval_if_true_x_y:
  "evalString sampleAddr 4 ''app app app if true x y'' =
     Some (Inr (ErrorObject (''unknown identifier: '' @ [CHR 0x27] @ ''x'' @ [CHR 0x27])))"
  by code_simp

lemma eval_y:
  "evalString sampleAddr 4 ''y'' =
     Some (Inr (ErrorObject (''unknown identifier: '' @ [CHR 0x27] @ ''y'' @ [CHR 0x27])))"
  by code_simp

text \<open>
  Claim C4 says that an error of the unselected branch expression is always the result.
  In \<open>app app app if true x y\<close> the unselected branch \<open>y\<close> evaluates to the error
  \<open>unknown identifier: 'y'\<close>, but the result is the error of \<open>x\<close>, the branch
  evaluated first; \<open>y\<close> is not evaluated at all.
\<close>

theorem C4_unselected_error_counterexample:
  "evalString sampleAddr 4 ''y'' =
     Some (Inr (ErrorObject (''unknown identifier: '' @ [CHR 0x27] @ ''y'' @ [CHR 0x27])))
   \<and> evalString sampleAddr 4 ''app app app if true x y'' =
     Some (Inr (ErrorObject (''unknown identifier: '' @ [CHR 0x27] @ ''x'' @ [CHR 0x27])))
   \<and> evalString sampleAddr 4 ''app app app if true x y'' \<noteq> evalString sampleAddr 4 ''y''"
  by (simp add: eval_if_true_x_y eval_y)

text \<open>
  Claim C4, amended. The builtin \<open>if\<close> applied to a first argument that is not a boolean
  yields the error object \<open>if: not a bool: '<value>'\<close>; applied to a boolean and then to
  two more arguments it returns the second argument when the boolean is true and the third
  otherwise. In \<open>app app app if c t e\<close> the application chain evaluates \<open>t\<close> and then
  \<open>e\<close> whatever the boolean is, \<open>e\<close> only if \<open>t\<close> did not yield an error, and the
  first error in that order is the result: an error of the unselected branch is the result
  unless the second argument has already yielded an error.
\<close>

theorem C4_builtin_if:
  "lookup defaultEnvironment ''if'' = builtinIf
   \<and> (\<forall>a. otyp a \<noteq> objectBool \<longrightarrow>
         funcApply addr IfFn a =
           Inr (ErrorObject (''if: not a bool: '' @ [CHR 0x27] @ objectString addr a @ [CHR 0x27])))
   \<and> funcApply addr IfFn (BoolObject v) = Inr (FuncObject (IfFn1 (BoolObject v)))
   \<and> funcApply addr (IfFn1 (BoolObject v)) b = Inr (FuncObject (IfFn2 (BoolObject v) b))
   \<and> funcApply addr (IfFn2 (BoolObject v) b) c = Inr (if v then b else c)
   \<and> (\<forall>f c t e env kf kc cv m.
         evalEnv addr kf f env = Some (Inr builtinIf) \<and> kf \<le> m
         \<and> evalEnv addr kc c env = Some (Inr cv) \<and> kc \<le> m
         \<and> otyp cv \<noteq> objectBool \<and> otyp cv \<noteq> objectError \<longrightarrow>
         evalEnv addr (Suc (Suc (Suc m))) (NodeApp (NodeApp (NodeApp f c) t) e) env =
           Some (Inr (ErrorObject (''if: not a bool: '' @ [CHR 0x27] @ objectString addr cv
                                   @ [CHR 0x27]))))
   \<and> (\<forall>f c t e env kf kc kt tv m.
         evalEnv addr kf f env = Some (Inr builtinIf) \<and> kf \<le> m
         \<and> evalEnv addr kc c env = Some (Inr (BoolObject v)) \<and> kc \<le> m
         \<and> evalEnv addr kt t env = Some (Inr tv) \<and> kt \<le> Suc m
         \<and> otyp tv = objectError \<longrightarrow>
         evalEnv addr (Suc (Suc (Suc m))) (NodeApp (NodeApp (NodeApp f c) t) e) env =
           Some (Inr tv))
   \<and> (\<forall>f c t e env kf kc kt ke tv ev m.
         evalEnv addr kf f env = Some (Inr builtinIf) \<and> kf \<le> m
         \<and> evalEnv addr kc c env = Some (Inr (BoolObject v)) \<and> kc \<le> m
         \<and> evalEnv addr kt t env = Some (Inr tv) \<and> kt \<le> Suc m
         \<and> otyp tv \<noteq> objectError
         \<and> evalEnv addr ke e env = Some (Inr ev) \<and> ke \<le> Suc (Suc m) \<longrightarrow>
         evalEnv addr (Suc (Suc (Suc m))) (NodeApp (NodeApp (NodeApp f c) t) e) env =
           Some (Inr (if otyp ev = objectError then ev else if v then tv else ev)))"
proof (intro conjI allI impI)
  show "lookup defaultEnvironment ''if'' = builtinIf"
    by (simp add: defaultEnvironment_def extend_def newEnvironment_def)
next
  fix a assume "otyp a \<noteq> objectBool"
  then show "funcApply addr IfFn a =
           Inr (ErrorObject (''if: not a bool: '' @ [CHR 0x27] @ objectString addr a @ [CHR 0x27]))"
    by (simp add: errorObjectf_def)
next
  show "funcApply addr IfFn (BoolObject v) = Inr (FuncObject (IfFn1 (BoolObject v)))"
    by simp
next
  show "funcApply addr (IfFn1 (BoolObject v)) b = Inr (FuncObject (IfFn2 (BoolObject v) b))"
    by simp
next
  show "funcApply addr (IfFn2 (BoolObject v) b) c = Inr (if v then b else c)"
    by simp
next
  fix f c t e env kf kc cv m
  assume "evalEnv addr kf f env = Some (Inr builtinIf) \<and> kf \<le> m
         \<and> evalEnv addr kc c env = Some (Inr cv) \<and> kc \<le> m
         \<and> otyp cv \<noteq> objectBool \<and> otyp cv \<noteq> objectError"
  then show "evalEnv addr (Suc (Suc (Suc m))) (NodeApp (NodeApp (NodeApp f c) t) e) env =
           Some (Inr (ErrorObject (''if: not a bool: '' @ [CHR 0x27] @ objectString addr cv
                                   @ [CHR 0x27])))"
    by (blast intro: evalEnv_if_not_bool)
next
  fix f c t e env kf kc kt tv m
  assume "evalEnv addr kf f env = Some (Inr builtinIf) \<and> kf \<le> m
         \<and> evalEnv addr kc c env = Some (Inr (BoolObject v)) \<and> kc \<le> m
         \<and> evalEnv addr kt t env = Some (Inr tv) \<and> kt \<le> Suc m
         \<and> otyp tv = objectError"
  then show "evalEnv addr (Suc (Suc (Suc m))) (NodeApp (NodeApp (NodeApp f c) t) e) env =
           Some (Inr tv)"
    by (blast intro: evalEnv_if_first_branch_error)
next
  fix f c t e env kf kc kt ke tv ev m
  assume "evalEnv addr kf f env = Some (Inr builtinIf) \<and> kf \<le> m
         \<and> evalEnv addr kc c env = Some (Inr (BoolObject v)) \<and> kc \<le> m
         \<and> evalEnv addr kt t env = Some (Inr tv) \<and> kt \<le> Suc m
         \<and> otyp tv \<noteq> objectError
         \<and> evalEnv addr ke e env = Some (Inr ev) \<and> ke \<le> Suc (Suc m)"
  then show "evalEnv addr (Suc (Suc (Suc m))) (NodeApp (NodeApp (NodeApp f c) t) e) env =
           Some (Inr (if otyp ev = objectError then ev else if v then tv else ev))"
    by (blast intro: evalEnv_if_branches)
qed

lemma known_if:
  "evalEnv sampleAddr 1 (NodeIdentifier ''if'') defaultEnvironment = Some (Inr builtinIf)"
  by code_simp

lemma literal_two:
  "evalEnv sampleAddr 1 (NodeNumber 2) defaultEnvironment = Some (Inr (NumberObject 2))"
  by code_simp

lemma literal_false:
  "evalEnv sampleAddr 1 (NodeBool False) defaultEnvironment = Some (Inr (BoolObject False))"
  by code_simp

lemma objectString_one: "objectString sampleAddr (NumberObject 1) = ''1''"
  by code_simp

theorem C4_builtin_if_witness:
  "funcApply sampleAddr IfFn (NumberObject 1) =
     Inr (ErrorObject (''if: not a bool: '' @ [CHR 0x27] @ ''1'' @ [CHR 0x27]))
   \<and> evalEnv sampleAddr (Suc (Suc (Suc 1)))
        (NodeApp (NodeApp (NodeApp (NodeIdentifier ''if'') (NodeNumber 1)) omegaNode) omegaNode)
        defaultEnvironment =
     Some (Inr (ErrorObject (''if: not a bool: '' @ [CHR 0x27] @ ''1'' @ [CHR 0x27])))
   \<and> evalEnv sampleAddr (Suc (Suc (Suc 1)))
        (NodeApp (NodeApp (NodeApp (NodeIdentifier ''if'') (NodeBool True)) (NodeIdentifier ''x''))
                 omegaNode)
        defaultEnvironment =
     Some (Inr (ErrorObject (''unknown identifier: '' @ [CHR 0x27] @ ''x'' @ [CHR 0x27])))
   \<and> evalEnv sampleAddr (Suc (Suc (Suc 1)))
        (NodeApp (NodeApp (NodeApp (NodeIdentifier ''if'') (NodeBool True)) (NodeNumber 1))
                 (NodeIdentifier ''y''))
        defaultEnvironment =
     Some (Inr (ErrorObject (''unknown identifier: '' @ [CHR 0x27] @ ''y'' @ [CHR 0x27])))
   \<and> evalEnv sampleAddr (Suc (Suc (Suc 1)))
        (NodeApp (NodeApp (NodeApp (NodeIdentifier ''if'') (NodeBool False)) (NodeNumber 1))
                 (NodeNumber 2))
        defaultEnvironment =
     Some (Inr (NumberObject 2))"
proof -
  note T = C4_builtin_if [of sampleAddr True]
  note F = C4_builtin_if [of sampleAddr False]
  have nb: "otyp (NumberObject 1) \<noteq> objectBool" by simp
  have "funcApply sampleAddr IfFn (NumberObject 1) =
     Inr (ErrorObject (''if: not a bool: '' @ [CHR 0x27] @ objectString sampleAddr (NumberObject 1)
                       @ [CHR 0x27]))"
    using T [THEN conjunct2, THEN conjunct1, rule_format, OF nb] .
  then have r1: "funcApply sampleAddr IfFn (NumberObject 1) =
     Inr (ErrorObject (''if: not a bool: '' @ [CHR 0x27] @ ''1'' @ [CHR 0x27]))"
    by (simp only: objectString_one)
  have h2: "evalEnv sampleAddr 1 (NodeIdentifier ''if'') defaultEnvironment = Some (Inr builtinIf)
            \<and> (1::nat) \<le> 1
            \<and> evalEnv sampleAddr 1 (NodeNumber 1) defaultEnvironment = Some (Inr (NumberObject 1))
            \<and> (1::nat) \<le> 1
            \<and> otyp (NumberObject 1) \<noteq> objectBool \<and> otyp (NumberObject 1) \<noteq> objectError"
    using known_if literal_one by simp
  have "evalEnv sampleAddr (Suc (Suc (Suc 1)))
        (NodeApp (NodeApp (NodeApp (NodeIdentifier ''if'') (NodeNumber 1)) omegaNode) omegaNode)
        defaultEnvironment =
     Some (Inr (ErrorObject (''if: not a bool: '' @ [CHR 0x27]
                             @ objectString sampleAddr (NumberObject 1) @ [CHR 0x27])))"
    using T [THEN conjunct2, THEN conjunct2, THEN conjunct2, THEN conjunct2, THEN conjunct2,
             THEN conjunct1, rule_format, OF h2] .
  then have r2: "evalEnv sampleAddr (Suc (Suc (Suc 1)))
        (NodeApp (NodeApp (NodeApp (NodeIdentifier ''if'') (NodeNumber 1)) omegaNode) omegaNode)
        defaultEnvironment =
     Some (Inr (ErrorObject (''if: not a bool: '' @ [CHR 0x27] @ ''1'' @ [CHR 0x27])))"
    by (simp only: objectString_one)
  have h3: "evalEnv sampleAddr 1 (NodeIdentifier ''if'') defaultEnvironment = Some (Inr builtinIf)
            \<and> (1::nat) \<le> 1
            \<and> evalEnv sampleAddr 1 (NodeBool True) defaultEnvironment = Some (Inr (BoolObject True))
            \<and> (1::nat) \<le> 1
            \<and> evalEnv sampleAddr 1 (NodeIdentifier ''x'') defaultEnvironment =
                Some (Inr (ErrorObject (''unknown identifier: '' @ [CHR 0x27] @ ''x'' @ [CHR 0x27])))
            \<and> (1::nat) \<le> Suc 1
            \<and> otyp (ErrorObject (''unknown identifier: '' @ [CHR 0x27] @ ''x'' @ [CHR 0x27]))
                = objectError"
    using known_if literal_true unknown_x by simp
  have r3: "evalEnv sampleAddr (Suc (Suc (Suc 1)))
        (NodeApp (NodeApp (NodeApp (NodeIdentifier ''if'') (NodeBool True)) (NodeIdentifier ''x''))
                 omegaNode)
        defaultEnvironment =
     Some (Inr (ErrorObject (''unknown identifier: '' @ [CHR 0x27] @ ''x'' @ [CHR 0x27])))"
    using T [THEN conjunct2, THEN conjunct2, THEN conjunct2, THEN conjunct2, THEN conjunct2,
             THEN conjunct2, THEN conjunct1, rule_format, OF h3] .
  have h4: "evalEnv sampleAddr 1 (NodeIdentifier ''if'') defaultEnvironment = Some (Inr builtinIf)
            \<and> (1::nat) \<le> 1
            \<and> evalEnv sampleAddr 1 (NodeBool True) defaultEnvironment = Some (Inr (BoolObject True))
            \<and> (1::nat) \<le> 1
            \<and> evalEnv sampleAddr 1 (NodeNumber 1) defaultEnvironment = Some (Inr (NumberObject 1))
            \<and> (1::nat) \<le> Suc 1
            \<and> otyp (NumberObject 1) \<noteq> objectError
            \<and> evalEnv sampleAddr 1 (NodeIdentifier ''y'') defaultEnvironment =
                Some (Inr (ErrorObject (''unknown identifier: '' @ [CHR 0x27] @ ''y'' @ [CHR 0x27])))
            \<and> (1::nat) \<le> Suc (Suc 1)"
    using known_if literal_true literal_one unknown_y by simp
  have "evalEnv sampleAddr (Suc (Suc (Suc 1)))
        (NodeApp (NodeApp (NodeApp (NodeIdentifier ''if'') (NodeBool True)) (NodeNumber 1))
                 (NodeIdentifier ''y''))
        defaultEnvironment =
     Some (Inr (if otyp (ErrorObject (''unknown identifier: '' @ [CHR 0x27] @ ''y'' @ [CHR 0x27]))
                   = objectError
                then ErrorObject (''unknown identifier: '' @ [CHR 0x27] @ ''y'' @ [CHR 0x27])
                else if True then NumberObject 1
                else ErrorObject (''unknown identifier: '' @ [CHR 0x27] @ ''y'' @ [CHR 0x27])))"
    using T [THEN conjunct2, THEN conjunct2, THEN conjunct2, THEN conjunct2, THEN conjunct2,
             THEN conjunct2, THEN conjunct2, rule_format, OF h4] .
  then have r4: "evalEnv sampleAddr (Suc (Suc (Suc 1)))
        (NodeApp (NodeApp (NodeApp (NodeIdentifier ''if'') (NodeBool True)) (NodeNumber 1))
                 (NodeIdentifier ''y''))
        defaultEnvironment =
     Some (Inr (ErrorObject (''unknown identifier: '' @ [CHR 0x27] @ ''y'' @ [CHR 0x27])))"
    by simp
  have h5: "evalEnv sampleAddr 1 (NodeIdentifier ''if'') defaultEnvironment = Some (Inr builtinIf)
            \<and> (1::nat) \<le> 1
            \<and> evalEnv sampleAddr 1 (NodeBool False) defaultEnvironment = Some (Inr (BoolObject False))
            \<and> (1::nat) \<le> 1
            \<and> evalEnv sampleAddr 1 (NodeNumber 1) defaultEnvironment = Some (Inr (NumberObject 1))
            \<and> (1::nat) \<le> Suc 1
            \<and> otyp (NumberObject 1) \<noteq> objectError
            \<and> evalEnv sampleAddr 1 (NodeNumber 2) defaultEnvironment = Some (Inr (NumberObject 2))
            \<and> (1::nat) \<le> Suc (Suc 1)"
    using known_if literal_false literal_one literal_two by simp
  have "evalEnv sampleAddr (Suc (Suc (Suc 1)))
        (NodeApp (NodeApp (NodeApp (NodeIdentifier ''if'') (NodeBool False)) (NodeNumber 1))
                 (NodeNumber 2))
        defaultEnvironment =
     Some (Inr (if otyp (NumberObject 2) = objectError then NumberObject 2
                else if False then NumberObject 1 else NumberObject 2))"
    using F [THEN conjunct2, THEN conjunct2, THEN conjunct2, THEN conjunct2, THEN conjunct2,
             THEN conjunct2, THEN conjunct2, rule_format, OF h5] .
  then have r5: "evalEnv sampleAddr (Suc (Suc (Suc 1)))
        (NodeApp (NodeApp (NodeApp (NodeIdentifier ''if'') (NodeBool False)) (NodeNumber 1))
                 (NodeNumber 2))
        defaultEnvironment =
     Some (Inr (NumberObject 2))"
    by simp
  show ?thesis using r1 r2 r3 r4 r5 by (intro conjI)
qed

section \<open>Runs of digits and letters in the lexer\<close>

lemma DecodeRuneInString_ascii:
  "of_char c < (0x80::nat) \<Longrightarrow> DecodeRuneInString (c # t) = (int (of_char c), 1)"
  by (simp add: DecodeRuneInString_def)

lemma lnext_ascii:
  assumes "drop (pos l) (input l) = c # t" and "of_char c < (0x80::nat)"
  shows "lnext l = (int (of_char c), l\<lparr>pos := Suc (pos l), width := 1\<rparr>)"
proof -
  from assms(1) have "pos l < length (input l)"
    by (metis drop_eq_Nil2 list.distinct(1) not_le_imp_less)
  with assms show ?thesis
    by (simp add: lnext_def DecodeRuneInString_ascii)
qed

lemma lnext_eof:
  "length (input l) \<le> pos l \<Longrightarrow> lnext l = (eof, l\<lparr>width := 0\<rparr>)"
  by (simp add: lnext_def)

lemma lnext_width_update [simp]: "lnext (l\<lparr>width := w\<rparr>) = lnext l"
  by (simp add: lnext_def split: prod.splits)

lemma drop_after_run:
  "drop p xs = ys @ zs \<Longrightarrow> drop (p + length ys) xs = zs"
  by (metis add.commute append_eq_conv_conj drop_drop)

lemma isDigit_ascii: "isDigit (int (of_char c)) \<Longrightarrow> of_char c < (0x80::nat)"
  by (simp add: isDigit_def)

lemma digitsLoop_run:
  assumes "drop (pos l) (input l) = ds @ rest"
    and "\<forall>c\<in>set ds. isDigit (int (of_char c))"
    and "\<not> isDigit (fst (lnext (l\<lparr>pos := pos l + length ds\<rparr>)))"
  shows "digitsLoop l = lnext (l\<lparr>pos := pos l + length ds\<rparr>)"
  using assms
proof (induction ds arbitrary: l)
  case Nil
  then show ?case
    by (subst digitsLoop.simps) (auto split: prod.splits)
next
  case (Cons d ds)
  let ?l1 = "l\<lparr>pos := Suc (pos l), width := 1\<rparr>"
  from Cons.prems(2) have dig: "isDigit (int (of_char d))" by simp
  from Cons.prems(1) have nx: "lnext l = (int (of_char d), ?l1)"
    by (intro lnext_ascii [where t = "ds @ rest"] isDigit_ascii dig) simp
  have dr: "drop (pos ?l1) (input ?l1) = ds @ rest"
  proof -
    have "drop (Suc (pos l)) (input l) = tl (drop (pos l) (input l))"
      by (simp add: drop_Suc tl_drop)
    with Cons.prems(1) show ?thesis by simp
  qed
  have eq: "?l1\<lparr>pos := pos ?l1 + length ds\<rparr> = (l\<lparr>pos := pos l + length (d # ds)\<rparr>)\<lparr>width := 1\<rparr>"
    by simp
  have "digitsLoop ?l1 = lnext (?l1\<lparr>pos := pos ?l1 + length ds\<rparr>)"
  proof (rule Cons.IH [OF dr])
    show "\<forall>c\<in>set ds. isDigit (int (of_char c))" using Cons.prems(2) by simp
    show "\<not> isDigit (fst (lnext (?l1\<lparr>pos := pos ?l1 + length ds\<rparr>)))"
      unfolding eq lnext_width_update using Cons.prems(3) .
  qed
  then have "digitsLoop ?l1 = lnext (l\<lparr>pos := pos l + length (d # ds)\<rparr>)"
    unfolding eq lnext_width_update .
  with nx dig show ?case
    by (subst digitsLoop.simps) simp
qed

lemma digitsLoop_to_eof:
  assumes "drop (pos l) (input l) = ds" and "\<forall>c\<in>set ds. isDigit (int (of_char c))"
    and "pos l \<le> length (input l)"
  shows "digitsLoop l = (eof, l\<lparr>pos := length (input l), width := 0\<rparr>)"
proof -
  from assms(1,3) have len: "pos l + length ds = length (input l)"
    by auto
  have nx: "lnext (l\<lparr>pos := pos l + length ds\<rparr>) = (eof, l\<lparr>pos := pos l + length ds, width := 0\<rparr>)"
    using len by (simp add: lnext_def)
  have "digitsLoop l = lnext (l\<lparr>pos := pos l + length ds\<rparr>)"
    by (rule digitsLoop_run [where rest = "[]"]) (use assms nx in \<open>simp_all add: isDigit_def eof_def\<close>)
  with nx len show ?thesis
    by simp
qed

lemma lexNumber_after_sign:
  assumes "(case lnext l of (ch0, l0) \<Rightarrow> if ch0 = 0x2D then lnext l0 else (ch0, l0)) = (ch1, l1)"
  shows "lexNumber l =
     (if \<not> isDigit ch1 then
         (let l2 = (if isBoundary ch1 then unnext l1 else l1)
          in (errorTokenf [''bad number syntax: '', [CHR 0x27], lexer_val l2, [CHR 0x27]], l2))
       else
         (case digitsLoop l1 of (ch2, l2) \<Rightarrow>
          if \<not> isBoundary ch2
          then (errorTokenf [''bad number syntax: '', [CHR 0x27], lexer_val l2, [CHR 0x27]], l2)
          else emit tokenNumber (unnext l2)))"
proof (cases "lnext l")
  case (Pair ch0 l0)
  with assms show ?thesis
    unfolding lexNumber_def by (cases "ch0 = 0x2D") simp_all
qed

lemma lexNumber_literal:
  assumes ne: "ds \<noteq> []" and dig: "\<forall>c\<in>set ds. isDigit (int (of_char c))"
    and sg: "sg = [] \<or> sg = ''-''"
  shows "lexNumber \<lparr>input = sg @ ds, pos = 0, start = 0, width = w\<rparr> =
           (Token tokenNumber (sg @ ds),
            \<lparr>input = sg @ ds, pos = length (sg @ ds), start = length (sg @ ds), width = 0\<rparr>)"
proof -
  from ne obtain d ds' where ds: "ds = d # ds'" by (cases ds) auto
  let ?s = "sg @ ds"
  let ?l = "\<lparr>input = ?s, pos = 0, start = 0, width = w\<rparr>"
  let ?ld = "\<lparr>input = ?s, pos = Suc (length sg), start = 0, width = 1\<rparr>"
  from dig ds have d: "isDigit (int (of_char d))" by simp
  then have dnm: "int (of_char d) \<noteq> 0x2D" by (simp add: isDigit_def)
  have first: "(case lnext ?l of (ch0, l0) \<Rightarrow> if ch0 = 0x2D then lnext l0 else (ch0, l0))
               = (int (of_char d), ?ld)"
  proof (cases "sg = []")
    case True
    have "lnext ?l = (int (of_char d), ?l\<lparr>pos := Suc (pos ?l), width := 1\<rparr>)"
      by (rule lnext_ascii [where t = ds']) (use True ds d in \<open>simp_all add: isDigit_ascii\<close>)
    with True dnm show ?thesis by simp
  next
    case False
    with sg have m: "sg = ''-''" by simp
    let ?lm = "\<lparr>input = ?s, pos = Suc 0, start = 0, width = 1\<rparr>"
    have a1: "drop (pos ?l) (input ?l) = CHR ''-'' # ds" using m by simp
    have a2: "of_char (CHR ''-'') < (0x80::nat)" by simp
    have a: "lnext ?l = (int (of_char (CHR ''-'')), ?l\<lparr>pos := Suc (pos ?l), width := 1\<rparr>)"
      using a1 a2 by (rule lnext_ascii)
    have b: "lnext ?lm = (int (of_char d), ?lm\<lparr>pos := Suc (pos ?lm), width := 1\<rparr>)"
      by (rule lnext_ascii [where t = ds']) (use m ds d in \<open>simp_all add: isDigit_ascii\<close>)
    from a b m show ?thesis by simp
  qed
  have loop: "digitsLoop ?ld = (eof, ?ld\<lparr>pos := length (input ?ld), width := 0\<rparr>)"
    by (rule digitsLoop_to_eof [where ds = ds']) (use ds dig in simp_all)
  have "lexNumber ?l = emit tokenNumber (unnext (?ld\<lparr>pos := length (input ?ld), width := 0\<rparr>))"
    using loop d by (simp add: lexNumber_after_sign [OF first] isBoundary_def)
  then show ?thesis
    by (simp add: emit_def unnext_def lexer_val_def)
qed

lemma skipSpaces_at_nonspace:
  assumes "drop (pos l) (input l) = c # t" and "of_char c < (0x80::nat)"
    and "\<not> isSpace (int (of_char c))"
  shows "skipSpaces l = l\<lparr>start := pos l, width := 1\<rparr>"
proof -
  have "skipSpacesLoop l = l\<lparr>pos := Suc (pos l), width := 1\<rparr>"
    by (subst skipSpacesLoop.simps) (simp add: lnext_ascii [OF assms(1,2)] assms(3))
  then show ?thesis
    by (simp add: skipSpaces_def unnext_def Let_def)
qed

lemma skipSpaces_at_eof:
  assumes "length (input l) \<le> pos l"
  shows "skipSpaces l = l\<lparr>start := pos l, width := 0\<rparr>"
proof -
  have "skipSpacesLoop l = l\<lparr>width := 0\<rparr>"
    by (subst skipSpacesLoop.simps) (simp add: lnext_eof [OF assms] isSpace_def eof_def)
  then show ?thesis
    by (simp add: skipSpaces_def unnext_def Let_def)
qed

lemma nextToken_at_eof:
  assumes "length (input l) \<le> pos l"
  shows "nextToken l = (Token tokenEOF [], l\<lparr>start := pos l, width := 0\<rparr>)"
proof -
  have "lnext (skipSpaces l) = (eof, l\<lparr>start := pos l, width := 0\<rparr>)"
    using assms by (simp add: skipSpaces_at_eof lnext_def)
  then show ?thesis
    by (simp add: nextToken_def eof_def isDigit_def isLetter_def emit_def lexer_val_def)
qed

lemma nextToken_number_literal:
  assumes ne: "ds \<noteq> []" and dig: "\<forall>c\<in>set ds. isDigit (int (of_char c))"
    and sg: "sg = [] \<or> sg = ''-''"
  shows "nextToken (newLexer (sg @ ds)) =
           (Token tokenNumber (sg @ ds),
            \<lparr>input = sg @ ds, pos = length (sg @ ds), start = length (sg @ ds), width = 0\<rparr>)"
proof -
  let ?s = "sg @ ds"
  from ne sg obtain c t where ct: "?s = c # t" and c: "c = CHR ''-'' \<or> isDigit (int (of_char c))"
    using dig by (cases ds) auto
  from c have asc: "of_char c < (0x80::nat)" and nsp: "\<not> isSpace (int (of_char c))"
    and num: "int (of_char c) = 0x2D \<or> isDigit (int (of_char c))"
    by (auto simp: isDigit_def isSpace_def)
  have dr: "drop (pos (newLexer ?s)) (input (newLexer ?s)) = c # t"
    by (simp add: newLexer_def ct)
  have sk: "skipSpaces (newLexer ?s) = \<lparr>input = ?s, pos = 0, start = 0, width = Suc 0\<rparr>"
    unfolding skipSpaces_at_nonspace [OF dr asc nsp] by (simp add: newLexer_def)
  have nx: "lnext \<lparr>input = ?s, pos = 0, start = 0, width = Suc 0\<rparr> =
              (int (of_char c), \<lparr>input = ?s, pos = Suc 0, start = 0, width = Suc 0\<rparr>)"
    using lnext_ascii [of "\<lparr>input = ?s, pos = 0, start = 0, width = Suc 0\<rparr>" c t] asc ct by simp
  have "nextToken (newLexer ?s) = lexNumber \<lparr>input = ?s, pos = 0, start = 0, width = Suc 0\<rparr>"
    using num unfolding nextToken_def sk nx by (simp add: unnext_def)
  then show ?thesis
    by (simp only: lexNumber_literal [OF ne dig sg])
qed

section \<open>Number literals\<close>

text \<open>
  The value a decimal numeral denotes: the digit at index \<open>i\<close> of \<open>n\<close> digits counts
  \<open>10 ^ (n - 1 - i)\<close> times.
\<close>

definition decimalValue :: "string \<Rightarrow> nat" where
  "decimalValue ds = (\<Sum>i<length ds. digitOf (ds ! i) * 10 ^ (length ds - Suc i))"

lemma decimalValue_snoc: "decimalValue (ds @ [d]) = 10 * decimalValue ds + digitOf d"
proof -
  have "(\<Sum>i<length ds. digitOf ((ds @ [d]) ! i) * 10 ^ (length (ds @ [d]) - Suc i))
        = (\<Sum>i<length ds. 10 * (digitOf (ds ! i) * 10 ^ (length ds - Suc i)))"
  proof (rule sum.cong)
    fix i assume "i \<in> {..<length ds}"
    then have i: "i < length ds" by simp
    then have "length (ds @ [d]) - Suc i = Suc (length ds - Suc i)" by simp
    with i show "digitOf ((ds @ [d]) ! i) * 10 ^ (length (ds @ [d]) - Suc i)
                 = 10 * (digitOf (ds ! i) * 10 ^ (length ds - Suc i))"
      by (simp add: nth_append)
  qed simp
  then show ?thesis
    by (simp add: decimalValue_def sum_distrib_left)
qed

lemma foldl_decimalValue:
  "foldl (\<lambda>acc c. 10 * acc + digitOf c) 0 ds = decimalValue ds"
proof (induction ds rule: rev_induct)
  case Nil
  show ?case by (simp add: decimalValue_def)
next
  case (snoc d ds)
  then show ?case by (simp add: decimalValue_snoc)
qed

lemma SetString_literal:
  assumes ne: "ds \<noteq> []" and dig: "\<forall>c\<in>set ds. isDigit (int (of_char c))"
  shows "SetString ds = Some (int (decimalValue ds))"
    and "SetString (CHR ''-'' # ds) = Some (- int (decimalValue ds))"
proof -
  from ne obtain d t where dt: "ds = d # t" by (cases ds) auto
  with dig have "isDigit (int (of_char d))" by simp
  then have "d \<noteq> CHR ''-''" "d \<noteq> CHR ''+''" by (auto simp: isDigit_def)
  with dt dig show "SetString ds = Some (int (decimalValue ds))"
    by (simp add: SetString_def list_all_iff foldl_decimalValue [symmetric])
  from ne dig show "SetString (CHR ''-'' # ds) = Some (- int (decimalValue ds))"
    by (simp add: SetString_def list_all_iff foldl_decimalValue [symmetric])
qed

lemma parseNumber_buffered:
  "SetString v = Some n \<Longrightarrow>
     parseNumber \<lparr>plex = l, buf = Some (Token ty v)\<rparr> = (NodeNumber n, \<lparr>plex = l, buf = None\<rparr>)"
  by (simp add: parseNumber_def pnext_def)

lemma parse_complete:
  assumes "parseExpression k p = Some (Inr (root, p1))" and "ntyp root \<noteq> nodeError"
    and "ttyp (fst (pnext p1)) = tokenEOF"
  shows "parse k p = Some (Inr root)"
  using assms by (cases "pnext p1") (simp add: parse_def)

lemma parseString_number_literal:
  assumes ne: "ds \<noteq> []" and dig: "\<forall>c\<in>set ds. isDigit (int (of_char c))"
    and sg: "sg = [] \<or> sg = ''-''" and n: "SetString (sg @ ds) = Some n"
  shows "parseString (sg @ ds) = Some (Inr (NodeNumber n))"
proof -
  let ?s = "sg @ ds"
  let ?fin = "\<lparr>input = ?s, pos = length ?s, start = length ?s, width = 0\<rparr>"
  let ?p1 = "\<lparr>plex = ?fin, buf = None\<rparr>"
  have a: "pnext (newParser ?s) = (Token tokenNumber ?s, ?p1)"
    by (simp add: pnext_def newParser_def nextToken_number_literal [OF ne dig sg])
  have c: "parseExpression (Suc (length ?s)) (newParser ?s) = Some (Inr (NodeNumber n, ?p1))"
    by (simp add: a punnext_def parseNumber_buffered [OF n])
  have "nextToken ?fin = (Token tokenEOF [], ?fin\<lparr>start := pos ?fin, width := 0\<rparr>)"
    by (rule nextToken_at_eof) simp
  then have d: "ttyp (fst (pnext ?p1)) = tokenEOF"
    by (simp add: pnext_def)
  show ?thesis
    unfolding parseString_def by (rule parse_complete [OF c _ d]) simp
qed

lemma digit_chars:
  "c \<in> set ''0123456789'' \<Longrightarrow> isDigit (int (of_char c))"
  by (auto simp: isDigit_def)

lemma digit_char_of:
  "(m::nat) < 10 \<Longrightarrow> char_of (0x30 + m) \<in> set ''0123456789'' \<and> digitOf (char_of (0x30 + m)) = m"
proof -
  assume "m < 10"
  then have "m = 0 \<or> m = 1 \<or> m = 2 \<or> m = 3 \<or> m = 4 \<or> m = 5 \<or> m = 6 \<or> m = 7
             \<or> m = 8 \<or> m = 9"
    by arith
  then show ?thesis
    by (elim disjE) (simp_all add: digitOf_def char_of_eq_iff take_bit_eq_mod)
qed

lemma natString_digits:
  "natString n \<noteq> [] \<and> set (natString n) \<subseteq> set ''0123456789'' \<and> decimalValue (natString n) = n"
proof (induction n rule: natString.induct)
  case (1 n)
  show ?case
  proof (cases "n < 10")
    case True
    then have "natString n = [char_of (0x30 + n)]"
      by (subst natString.simps) simp
    with digit_char_of [OF True] show ?thesis
      by (simp add: decimalValue_def)
  next
    case False
    then have eq: "natString n = natString (n div 10) @ [char_of (0x30 + n mod 10)]"
      by (subst natString.simps) simp
    have m: "n mod 10 < 10" by simp
    from 1 [OF False] digit_char_of [OF m] show ?thesis
      unfolding eq decimalValue_snoc by simp
  qed
qed

lemma nat_of_negative: "i < 0 \<Longrightarrow> - int (nat (- i)) = i"
  by simp

text \<open>
  Claim C3. A decimal number literal, one or more digits of any number after an optional
  minus sign, evaluates under the default environment to the integer object with exactly
  the value the digits denote (\<open>decimalValue\<close>, negated after a minus sign). In
  particular the decimal rendering of every integer evaluates to that integer.
\<close>

theorem C3_number_literals:
  "(ds \<noteq> [] \<and> set ds \<subseteq> set ''0123456789'' \<longrightarrow>
     evalString addr (Suc k) ds = Some (Inr (NumberObject (int (decimalValue ds))))
     \<and> evalString addr (Suc k) (CHR ''-'' # ds) = Some (Inr (NumberObject (- int (decimalValue ds)))))
   \<and> evalString addr (Suc k) (bigIntString n) = Some (Inr (NumberObject n))"
proof -
  have lit: "evalString addr (Suc k) xs = Some (Inr (NumberObject (int (decimalValue xs))))
     \<and> evalString addr (Suc k) (CHR ''-'' # xs) = Some (Inr (NumberObject (- int (decimalValue xs))))"
    if h: "xs \<noteq> [] \<and> set xs \<subseteq> set ''0123456789''" for xs
  proof (intro conjI)
    from h have ne: "xs \<noteq> []" and dig: "\<forall>c\<in>set xs. isDigit (int (of_char c))"
      using digit_chars by blast+
    have "parseString ([] @ xs) = Some (Inr (NodeNumber (int (decimalValue xs))))"
      by (rule parseString_number_literal [OF ne dig]) (simp_all add: SetString_literal [OF ne dig])
    then show "evalString addr (Suc k) xs = Some (Inr (NumberObject (int (decimalValue xs))))"
      by (simp add: evalString_def eval_def)
    have "parseString (''-'' @ xs) = Some (Inr (NodeNumber (- int (decimalValue xs))))"
      by (rule parseString_number_literal [OF ne dig]) (simp_all add: SetString_literal [OF ne dig])
    then show "evalString addr (Suc k) (CHR ''-'' # xs)
               = Some (Inr (NumberObject (- int (decimalValue xs))))"
      by (simp add: evalString_def eval_def)
  qed
  have round: "evalString addr (Suc k) (bigIntString n) = Some (Inr (NumberObject n))"
  proof (cases "n < 0")
    case True
    from natString_digits [of "nat (- n)"]
    have h: "natString (nat (- n)) \<noteq> [] \<and> set (natString (nat (- n))) \<subseteq> set ''0123456789''"
      and v: "decimalValue (natString (nat (- n))) = nat (- n)" by blast+
    from lit [OF h] True show ?thesis
      unfolding bigIntString_def v by (simp only: nat_of_negative if_True)
  next
    case False
    from natString_digits [of "nat n"]
    have h: "natString (nat n) \<noteq> [] \<and> set (natString (nat n)) \<subseteq> set ''0123456789''"
      and v: "decimalValue (natString (nat n)) = nat n" by blast+
    from lit [OF h] False show ?thesis
      unfolding bigIntString_def v by simp
  qed
  from lit round show ?thesis by blast
qed

lemma decimalValue_0042: "decimalValue ''0042'' = 42"
  by (simp add: foldl_decimalValue [symmetric] digitOf_def)

lemma decimalValue_2_128:
  "decimalValue ''340282366920938463463374607431768211456'' = 340282366920938463463374607431768211456"
  by (simp add: foldl_decimalValue [symmetric] digitOf_def)

theorem C3_number_literals_witness:
  "evalString sampleAddr (Suc 0) ''0042'' = Some (Inr (NumberObject 42))
   \<and> evalString sampleAddr (Suc 0) ''-0042'' = Some (Inr (NumberObject (- 42)))
   \<and> evalString sampleAddr (Suc 0) ''340282366920938463463374607431768211456'' =
       Some (Inr (NumberObject 340282366920938463463374607431768211456))
   \<and> evalString sampleAddr (Suc 0) ''-340282366920938463463374607431768211456'' =
       Some (Inr (NumberObject (- 340282366920938463463374607431768211456)))"
proof -
  have h1: "''0042'' \<noteq> [] \<and> set ''0042'' \<subseteq> set ''0123456789''" by simp
  have h2: "''340282366920938463463374607431768211456'' \<noteq> []
            \<and> set ''340282366920938463463374607431768211456'' \<subseteq> set ''0123456789''" by simp
  note T1 = C3_number_literals [of "''0042''" sampleAddr 0, THEN conjunct1, rule_format, OF h1]
  note T2 = C3_number_literals [of "''340282366920938463463374607431768211456''" sampleAddr 0,
                                THEN conjunct1, rule_format, OF h2]
  have r1: "evalString sampleAddr (Suc 0) ''0042'' = Some (Inr (NumberObject 42))"
    using T1 [THEN conjunct1] unfolding decimalValue_0042 by simp
  have r2: "evalString sampleAddr (Suc 0) ''-0042'' = Some (Inr (NumberObject (- 42)))"
    using T1 [THEN conjunct2] unfolding decimalValue_0042 by simp
  have r3: "evalString sampleAddr (Suc 0) ''340282366920938463463374607431768211456'' =
       Some (Inr (NumberObject 340282366920938463463374607431768211456))"
    using T2 [THEN conjunct1] unfolding decimalValue_2_128 by simp
  have r4: "evalString sampleAddr (Suc 0) ''-340282366920938463463374607431768211456'' =
       Some (Inr (NumberObject (- 340282366920938463463374607431768211456)))"
    using T2 [THEN conjunct2] unfolding decimalValue_2_128 by simp
  show ?thesis using r1 r2 r3 r4 by (intro conjI)
qed

section \<open>Progress of the lexer and token streams\<close>

lemma lnext_props:
  assumes "lnext l = (ch, l')"
  shows "input l' = input l" and "start l' = start l" and "pos l' = pos l + width l'"
  using assms by (auto simp: lnext_def split: if_splits prod.splits)

lemma lnext_noneof:
  assumes "lnext l = (ch, l')" and "ch \<noteq> eof"
  shows "pos l < length (input l)" and "1 \<le> width l'"
proof -
  show lt: "pos l < length (input l)"
    using assms by (auto simp: lnext_def split: if_splits)
  then have "drop (pos l) (input l) \<noteq> []" by simp
  then have "1 \<le> snd (DecodeRuneInString (drop (pos l) (input l)))"
    by (rule DecodeRuneInString_width)
  with lt assms show "1 \<le> width l'"
    by (auto simp: lnext_def split: if_splits prod.splits)
qed

lemma skipSpacesLoop_props:
  "skipSpacesLoop l = l' \<Longrightarrow>
     input l' = input l \<and> start l' = start l \<and> pos l \<le> pos l' - width l' \<and> width l' \<le> pos l'"
proof (induction l arbitrary: l' rule: skipSpacesLoop.induct)
  case (1 l)
  obtain ch l1 where nx: "lnext l = (ch, l1)" by (cases "lnext l")
  note p = lnext_props [OF nx]
  show ?case
  proof (cases "isSpace ch")
    case True
    with nx "1.prems" have "skipSpacesLoop l1 = l'"
      by (subst (asm) skipSpacesLoop.simps) simp
    from "1.IH" [OF nx [symmetric] True this] p show ?thesis by simp
  next
    case False
    with nx "1.prems" have "l' = l1"
      by (subst (asm) skipSpacesLoop.simps) simp
    with p show ?thesis by simp
  qed
qed

lemma digitsLoop_props:
  "digitsLoop l = (ch, l') \<Longrightarrow>
     input l' = input l \<and> start l' = start l \<and> pos l \<le> pos l' - width l' \<and> width l' \<le> pos l'"
proof (induction l arbitrary: ch l' rule: digitsLoop.induct)
  case (1 l)
  obtain c l1 where nx: "lnext l = (c, l1)" by (cases "lnext l")
  note p = lnext_props [OF nx]
  show ?case
  proof (cases "isDigit c")
    case True
    with nx "1.prems" have "digitsLoop l1 = (ch, l')"
      by (subst (asm) digitsLoop.simps) simp
    from "1.IH" [OF nx [symmetric] _ this] True p show ?thesis by simp
  next
    case False
    with nx "1.prems" have "l' = l1"
      by (subst (asm) digitsLoop.simps) simp
    with p show ?thesis by simp
  qed
qed

lemma identLoop_props:
  "identLoop l = (ch, l') \<Longrightarrow>
     input l' = input l \<and> start l' = start l \<and> pos l \<le> pos l' - width l' \<and> width l' \<le> pos l'"
proof (induction l arbitrary: ch l' rule: identLoop.induct)
  case (1 l)
  obtain c l1 where nx: "lnext l = (c, l1)" by (cases "lnext l")
  note p = lnext_props [OF nx]
  show ?case
  proof (cases "\<not> isDigit c \<and> \<not> isLetter c")
    case False
    with nx "1.prems" have "identLoop l1 = (ch, l')"
      by (subst (asm) identLoop.simps) auto
    from "1.IH" [OF nx [symmetric] _ this] False p show ?thesis by simp
  next
    case True
    with nx "1.prems" have "l' = l1"
      by (subst (asm) identLoop.simps) simp
    with p show ?thesis by simp
  qed
qed

lemma skipSpaces_props:
  "input (skipSpaces l) = input l" "pos l \<le> pos (skipSpaces l)"
  "start (skipSpaces l) = pos (skipSpaces l)"
  using skipSpacesLoop_props [OF refl, of l]
  by (simp_all add: skipSpaces_def unnext_def Let_def)

lemma lexNumber_props:
  assumes "lexNumber l = (t, l')"
  shows "input l' = input l" and "pos l \<le> pos l'"
    and "ttyp t \<noteq> tokenError \<Longrightarrow> pos l < pos l' \<and> pos l < length (input l)"
proof -
  obtain ch0 l0 where n0: "lnext l = (ch0, l0)" by (cases "lnext l")
  obtain ch1 l1 where n1: "(if ch0 = 0x2D then lnext l0 else (ch0, l0)) = (ch1, l1)"
    by (cases "if ch0 = 0x2D then lnext l0 else (ch0, l0)")
  note p0 = lnext_props [OF n0]
  have p1: "input l1 = input l \<and> pos l \<le> pos l1 - width l1 \<and> width l1 \<le> pos l1"
  proof (cases "ch0 = 0x2D")
    case True
    with n1 have "lnext l0 = (ch1, l1)" by simp
    from lnext_props [OF this] p0 show ?thesis by simp
  next
    case False
    with n1 p0 show ?thesis by simp
  qed
  have d1: "pos l < pos l1 \<and> pos l < length (input l)" if dig: "isDigit ch1"
  proof (cases "ch0 = 0x2D")
    case True
    with n1 have n: "lnext l0 = (ch1, l1)" by simp
    from True have "ch0 \<noteq> eof" by (simp add: eof_def)
    from lnext_noneof [OF n0 this] lnext_noneof [OF n isDigit_not_eof [OF dig]]
      lnext_props [OF n] p0
    show ?thesis by simp
  next
    case False
    with n1 have "ch1 = ch0" "l1 = l0" by simp_all
    with lnext_noneof [OF n0] isDigit_not_eof [OF dig] p0 show ?thesis by simp
  qed
  have first: "(case lnext l of (ch0, l0) \<Rightarrow> if ch0 = 0x2D then lnext l0 else (ch0, l0)) = (ch1, l1)"
    using n0 n1 by simp
  note unf = lexNumber_after_sign [OF first]
  show "input l' = input l" and "pos l \<le> pos l'"
    and "ttyp t \<noteq> tokenError \<Longrightarrow> pos l < pos l' \<and> pos l < length (input l)"
  proof -
    consider (bad) "\<not> isDigit ch1"
      | (run) ch2 l2 where "isDigit ch1" "digitsLoop l1 = (ch2, l2)"
      by (cases "digitsLoop l1") auto
    then have "input l' = input l \<and> pos l \<le> pos l'
               \<and> (ttyp t \<noteq> tokenError \<longrightarrow> pos l < pos l' \<and> pos l < length (input l))"
    proof cases
      case bad
      with assms unf p1 show ?thesis
        by (auto simp: Let_def errorTokenf_def unnext_def split: if_splits)
    next
      case run
      from digitsLoop_props [OF run(2)] p1 d1 [OF run(1)] assms unf run
      show ?thesis
        by (auto simp: errorTokenf_def unnext_def emit_def split: if_splits)
    qed
    then show "input l' = input l" and "pos l \<le> pos l'"
      and "ttyp t \<noteq> tokenError \<Longrightarrow> pos l < pos l' \<and> pos l < length (input l)"
      by simp_all
  qed
qed

lemma lexIdentifier_props:
  assumes "lexIdentifier l = (t, l')"
  shows "input l' = input l" and "pos l \<le> pos l'"
proof -
  obtain ch l1 where lp: "identLoop l = (ch, l1)" by (cases "identLoop l")
  from identLoop_props [OF lp] assms lp
  have "input l' = input l \<and> pos l \<le> pos l'"
    by (auto simp: lexIdentifier_def errorTokenf_def unnext_def emit_def Let_def split: if_splits)
  then show "input l' = input l" and "pos l \<le> pos l'" by simp_all
qed

lemma nextToken_props:
  assumes "nextToken l = (t, l')"
  shows "input l' = input l" and "pos l \<le> pos l'"
    and "ttyp t \<noteq> tokenError \<Longrightarrow> ttyp t \<noteq> tokenEOF
           \<Longrightarrow> pos l < pos l' \<and> pos l < length (input l)"
proof -
  let ?s = "skipSpaces l"
  obtain ch l1 where nx: "lnext ?s = (ch, l1)" by (cases "lnext ?s")
  note sp = skipSpaces_props [of l]
  note p = lnext_props [OF nx]
  have adv: "pos ?s < pos l1 \<and> pos ?s < length (input l)" if "ch \<noteq> eof"
    using lnext_noneof [OF nx that] p sp by simp
  have un: "pos (unnext l1) = pos ?s" "input (unnext l1) = input l"
    using p sp by (simp_all add: unnext_def)
  consider (num) "ch = 0x2D \<or> isDigit ch"
    | (ident) "\<not> (ch = 0x2D \<or> isDigit ch)" "isLetter ch"
    | (other) "\<not> (ch = 0x2D \<or> isDigit ch)" "\<not> isLetter ch"
    by blast
  then have "input l' = input l \<and> pos l \<le> pos l'
      \<and> (ttyp t \<noteq> tokenError \<longrightarrow> ttyp t \<noteq> tokenEOF \<longrightarrow> pos l < pos l' \<and> pos l < length (input l))"
  proof cases
    case num
    with assms nx have ln: "lexNumber (unnext l1) = (t, l')"
      by (simp add: nextToken_def)
    from lexNumber_props [OF ln] un sp show ?thesis by auto
  next
    case ident
    with assms nx have li: "lexIdentifier l1 = (t, l')"
      by (simp add: nextToken_def)
    from ident(2) have "ch \<noteq> eof" by (rule isLetter_not_eof)
    from lexIdentifier_props [OF li] adv [OF this] p sp show ?thesis by auto
  next
    case other
    with assms nx adv p sp show ?thesis
      by (auto simp: nextToken_def emit_def errorTokenf_def eof_def split: if_splits)
  qed
  then show "input l' = input l" and "pos l \<le> pos l'"
    and "ttyp t \<noteq> tokenError \<Longrightarrow> ttyp t \<noteq> tokenEOF
           \<Longrightarrow> pos l < pos l' \<and> pos l < length (input l)"
    by simp_all
qed

lemma nextToken_progress:
  assumes "nextToken l = (t, l')" and "ttyp t \<noteq> tokenError" and "ttyp t \<noteq> tokenEOF"
  shows "length (input l') - pos l' < length (input l) - pos l"
proof -
  from nextToken_props [OF assms(1)] assms(2,3)
  have "input l' = input l" and "pos l < pos l'" and "pos l < length (input l)"
    by simp_all
  then show ?thesis by arith
qed

text \<open>
  \<open>collectTokens\<close> of the lexer's test: the tokens of an input up to and including the
  first error token or end-of-input token.
\<close>

function collectLoop :: "lexer \<Rightarrow> token list" where
  "collectLoop l =
     (case nextToken l of (t, l') \<Rightarrow>
        if ttyp t = tokenError \<or> ttyp t = tokenEOF then [t] else t # collectLoop l')"
  by pat_completeness auto
termination
  by (relation "measure (\<lambda>l. length (input l) - pos l)")
     (auto dest: nextToken_progress [OF sym])

declare collectLoop.simps [simp del]

definition collectTokens :: "string \<Rightarrow> token list" where
  "collectTokens s = collectLoop (newLexer s)"

lemma collectTokens_3x:
  "collectTokens ''3x'' = [Token tokenError (''bad number syntax: '' @ [CHR 0x27] @ ''3x'' @ [CHR 0x27])]"
  by code_simp

lemma collectTokens_truex:
  "collectTokens ''truex'' = [Token tokenIdentifier ''truex'', Token tokenEOF []]"
  by code_simp

section \<open>Boundary violations\<close>

lemma lnext_decode:
  assumes "drop (pos l) (input l) = rest" and "rest \<noteq> []" and "DecodeRuneInString rest = (r, w)"
  shows "lnext l = (r, l\<lparr>pos := pos l + w, width := w\<rparr>)"
proof -
  from assms(1,2) have "pos l < length (input l)"
    by (metis drop_eq_Nil2 not_le_imp_less)
  with assms show ?thesis by (simp add: lnext_def)
qed

lemma lexNumber_bad_run:
  assumes ne: "ds \<noteq> []" and dig: "\<forall>c\<in>set ds. isDigit (int (of_char c))"
    and sg: "sg = [] \<or> sg = ''-''"
    and rest: "rest \<noteq> []" and dec: "DecodeRuneInString rest = (r, w)"
    and nd: "\<not> isDigit r" and nb: "\<not> isBoundary r"
  shows "lexNumber \<lparr>input = sg @ ds @ rest, pos = 0, start = 0, width = v\<rparr> =
           (Token tokenError (''bad number syntax: '' @ [CHR 0x27] @ sg @ ds @ take w rest @ [CHR 0x27]),
            \<lparr>input = sg @ ds @ rest, pos = length (sg @ ds) + w, start = 0, width = w\<rparr>)"
proof -
  from ne obtain d ds' where ds: "ds = d # ds'" by (cases ds) auto
  let ?s = "sg @ ds @ rest"
  let ?l = "\<lparr>input = ?s, pos = 0, start = 0, width = v\<rparr>"
  let ?ld = "\<lparr>input = ?s, pos = Suc (length sg), start = 0, width = 1\<rparr>"
  let ?lf = "\<lparr>input = ?s, pos = length (sg @ ds) + w, start = 0, width = w\<rparr>"
  from dig ds have d: "isDigit (int (of_char d))" by simp
  then have dnm: "int (of_char d) \<noteq> 0x2D" by (simp add: isDigit_def)
  have first: "(case lnext ?l of (ch0, l0) \<Rightarrow> if ch0 = 0x2D then lnext l0 else (ch0, l0))
               = (int (of_char d), ?ld)"
  proof (cases "sg = []")
    case True
    have "lnext ?l = (int (of_char d), ?l\<lparr>pos := Suc (pos ?l), width := 1\<rparr>)"
      by (rule lnext_ascii [where t = "ds' @ rest"]) (use True ds d in \<open>simp_all add: isDigit_ascii\<close>)
    with True dnm show ?thesis by simp
  next
    case False
    with sg have m: "sg = ''-''" by simp
    let ?lm = "\<lparr>input = ?s, pos = Suc 0, start = 0, width = 1\<rparr>"
    have a: "lnext ?l = (int (of_char (CHR ''-'')), ?l\<lparr>pos := Suc (pos ?l), width := 1\<rparr>)"
      by (rule lnext_ascii [where t = "ds @ rest"]) (use m in simp_all)
    have b: "lnext ?lm = (int (of_char d), ?lm\<lparr>pos := Suc (pos ?lm), width := 1\<rparr>)"
      by (rule lnext_ascii [where t = "ds' @ rest"]) (use m ds d in \<open>simp_all add: isDigit_ascii\<close>)
    from a b m show ?thesis by simp
  qed
  have stop: "lnext (?ld\<lparr>pos := pos ?ld + length ds'\<rparr>) = (r, ?lf)"
    using lnext_decode [of "?ld\<lparr>pos := pos ?ld + length ds'\<rparr>" rest r w] rest dec ds
    by simp
  have loop: "digitsLoop ?ld = (r, ?lf)"
    unfolding stop [symmetric]
    by (rule digitsLoop_run [where rest = rest]) (use ds dig nd stop in simp_all)
  have "lexNumber ?l =
          (errorTokenf [''bad number syntax: '', [CHR 0x27], lexer_val ?lf, [CHR 0x27]], ?lf)"
    using loop d nb by (simp add: lexNumber_after_sign [OF first])
  then show ?thesis
    by (simp add: errorTokenf_def lexer_val_def)
qed

lemma nextToken_start:
  assumes "of_char c < (0x80::nat)" and "\<not> isSpace (int (of_char c))"
  shows "nextToken (newLexer (c # t)) =
     (let ch = int (of_char c);
          l1 = \<lparr>input = c # t, pos = Suc 0, start = 0, width = Suc 0\<rparr> in
        if ch = 0x2D \<or> isDigit ch then lexNumber (unnext l1)
        else if isLetter ch then lexIdentifier l1
        else if ch = 0x28 then emit tokenLeftParen l1
        else if ch = 0x29 then emit tokenRightParen l1
        else if ch = eof then emit tokenEOF l1
        else (errorTokenf [''illegal character: '', [CHR 0x27], encodeRune ch, [CHR 0x27]], l1))"
proof -
  let ?s = "c # t"
  have dr: "drop (pos (newLexer ?s)) (input (newLexer ?s)) = c # t"
    by (simp add: newLexer_def)
  have sk: "skipSpaces (newLexer ?s) = \<lparr>input = ?s, pos = 0, start = 0, width = Suc 0\<rparr>"
    unfolding skipSpaces_at_nonspace [OF dr assms] by (simp add: newLexer_def)
  have nx: "lnext \<lparr>input = ?s, pos = 0, start = 0, width = Suc 0\<rparr> =
              (int (of_char c), \<lparr>input = ?s, pos = Suc 0, start = 0, width = Suc 0\<rparr>)"
    using lnext_ascii [of "\<lparr>input = ?s, pos = 0, start = 0, width = Suc 0\<rparr>" c t] assms(1) by simp
  show ?thesis
    unfolding nextToken_def sk nx by (simp add: Let_def)
qed

lemma collectTokens_error:
  "nextToken (newLexer s) = (Token tokenError m, l) \<Longrightarrow> collectTokens s = [Token tokenError m]"
  unfolding collectTokens_def by (subst collectLoop.simps) simp

lemma collectTokens_bad_number:
  assumes ne: "ds \<noteq> []" and dig: "\<forall>c\<in>set ds. isDigit (int (of_char c))"
    and sg: "sg = [] \<or> sg = ''-''"
    and rest: "rest \<noteq> []" and dec: "DecodeRuneInString rest = (r, w)"
    and nd: "\<not> isDigit r" and nb: "\<not> isBoundary r"
  shows "collectTokens (sg @ ds @ rest) =
           [Token tokenError (''bad number syntax: '' @ [CHR 0x27] @ sg @ ds @ take w rest @ [CHR 0x27])]"
proof -
  let ?s = "sg @ ds @ rest"
  from ne sg obtain c t where ct: "?s = c # t" and c: "c = CHR ''-'' \<or> isDigit (int (of_char c))"
    using dig by (cases ds) auto
  from c have asc: "of_char c < (0x80::nat)" and nsp: "\<not> isSpace (int (of_char c))"
    and num: "int (of_char c) = 0x2D \<or> isDigit (int (of_char c))"
    by (auto simp: isDigit_def isSpace_def)
  have "nextToken (newLexer ?s) = lexNumber \<lparr>input = ?s, pos = 0, start = 0, width = Suc 0\<rparr>"
    unfolding ct nextToken_start [OF asc nsp] using num by (simp add: Let_def unnext_def)
  then show ?thesis
    unfolding lexNumber_bad_run [OF ne dig sg rest dec nd nb] by (rule collectTokens_error)
qed

lemma isLetter_ascii: "isLetter (int (of_char c)) \<Longrightarrow> of_char c < (0x80::nat)"
  by (auto simp: isLetter_def)

lemma identLoop_run:
  assumes "drop (pos l) (input l) = ws @ rest"
    and "\<forall>c\<in>set ws. isDigit (int (of_char c)) \<or> isLetter (int (of_char c))"
    and "\<not> isDigit (fst (lnext (l\<lparr>pos := pos l + length ws\<rparr>)))"
    and "\<not> isLetter (fst (lnext (l\<lparr>pos := pos l + length ws\<rparr>)))"
  shows "identLoop l = lnext (l\<lparr>pos := pos l + length ws\<rparr>)"
  using assms
proof (induction ws arbitrary: l)
  case Nil
  then show ?case
    by (subst identLoop.simps) (auto split: prod.splits)
next
  case (Cons a ws)
  let ?l1 = "l\<lparr>pos := Suc (pos l), width := 1\<rparr>"
  from Cons.prems(2) have al: "isDigit (int (of_char a)) \<or> isLetter (int (of_char a))" by simp
  then have asc: "of_char a < (0x80::nat)" using isDigit_ascii isLetter_ascii by blast
  from Cons.prems(1) have nx: "lnext l = (int (of_char a), ?l1)"
    by (intro lnext_ascii [where t = "ws @ rest"] asc) simp
  have dr: "drop (pos ?l1) (input ?l1) = ws @ rest"
  proof -
    have "drop (Suc (pos l)) (input l) = tl (drop (pos l) (input l))"
      by (simp add: drop_Suc tl_drop)
    with Cons.prems(1) show ?thesis by simp
  qed
  have eq: "?l1\<lparr>pos := pos ?l1 + length ws\<rparr> = (l\<lparr>pos := pos l + length (a # ws)\<rparr>)\<lparr>width := 1\<rparr>"
    by simp
  have "identLoop ?l1 = lnext (?l1\<lparr>pos := pos ?l1 + length ws\<rparr>)"
  proof (rule Cons.IH [OF dr])
    show "\<forall>c\<in>set ws. isDigit (int (of_char c)) \<or> isLetter (int (of_char c))"
      using Cons.prems(2) by simp
    show "\<not> isDigit (fst (lnext (?l1\<lparr>pos := pos ?l1 + length ws\<rparr>)))"
      unfolding eq lnext_width_update using Cons.prems(3) .
    show "\<not> isLetter (fst (lnext (?l1\<lparr>pos := pos ?l1 + length ws\<rparr>)))"
      unfolding eq lnext_width_update using Cons.prems(4) .
  qed
  then have "identLoop ?l1 = lnext (l\<lparr>pos := pos l + length (a # ws)\<rparr>)"
    unfolding eq lnext_width_update .
  with nx al show ?case
    by (subst identLoop.simps) auto
qed

lemma collectTokens_bad_identifier:
  assumes a: "isLetter (int (of_char a))"
    and ws: "\<forall>c\<in>set ws. isDigit (int (of_char c)) \<or> isLetter (int (of_char c))"
    and rest: "rest \<noteq> []" and dec: "DecodeRuneInString rest = (r, w)"
    and nd: "\<not> isDigit r" and nl: "\<not> isLetter r" and nb: "\<not> isBoundary r"
  shows "collectTokens (a # ws @ rest) =
           [Token tokenError
              (''bad identifier syntax: '' @ [CHR 0x27] @ a # ws @ take w rest @ [CHR 0x27])]"
proof -
  let ?s = "a # ws @ rest"
  let ?l1 = "\<lparr>input = ?s, pos = Suc 0, start = 0, width = Suc 0\<rparr>"
  let ?lf = "\<lparr>input = ?s, pos = Suc (length ws) + w, start = 0, width = w\<rparr>"
  from a have asc: "of_char a < (0x80::nat)" and nsp: "\<not> isSpace (int (of_char a))"
    and nnum: "\<not> (int (of_char a) = 0x2D \<or> isDigit (int (of_char a)))"
    by (auto simp: isLetter_def isDigit_def isSpace_def)
  have nt: "nextToken (newLexer ?s) = lexIdentifier ?l1"
    unfolding nextToken_start [OF asc nsp] using nnum a by (simp add: Let_def)
  have stop: "lnext (?l1\<lparr>pos := pos ?l1 + length ws\<rparr>) = (r, ?lf)"
    using lnext_decode [of "?l1\<lparr>pos := pos ?l1 + length ws\<rparr>" rest r w] rest dec by simp
  have loop: "identLoop ?l1 = (r, ?lf)"
    unfolding stop [symmetric]
    by (rule identLoop_run [where rest = rest]) (use ws nd nl stop in simp_all)
  have "lexIdentifier ?l1 =
          (errorTokenf [''bad identifier syntax: '', [CHR 0x27], lexer_val ?lf, [CHR 0x27]], ?lf)"
    using loop nb by (simp add: lexIdentifier_def)
  then have "nextToken (newLexer ?s) =
          (Token tokenError
              (''bad identifier syntax: '' @ [CHR 0x27] @ a # ws @ take w rest @ [CHR 0x27]), ?lf)"
    unfolding nt by (simp add: errorTokenf_def lexer_val_def)
  then show ?thesis by (rule collectTokens_error)
qed

lemma collectTokens_3xyz:
  "collectTokens ''3xyz'' = [Token tokenError (''bad number syntax: '' @ [CHR 0x27] @ ''3x'' @ [CHR 0x27])]"
  by code_simp

lemma isSpace_ascii: "isSpace (int (of_char c)) \<Longrightarrow> of_char c < (0x80::nat)"
  by (auto simp: isSpace_def)

lemma drop_Suc_Cons_eq: "drop p xs = y # ys \<Longrightarrow> drop (Suc p) xs = ys"
  by (metis drop_Suc list.sel(3) tl_drop)

lemma skipSpacesLoop_run:
  assumes "drop (pos l) (input l) = sp @ c # t"
    and "\<forall>x\<in>set sp. isSpace (int (of_char x))"
    and "of_char c < (0x80::nat)" and "\<not> isSpace (int (of_char c))"
  shows "skipSpacesLoop l = l\<lparr>pos := Suc (pos l + length sp), width := 1\<rparr>"
  using assms
proof (induction sp arbitrary: l)
  case Nil
  then have "lnext l = (int (of_char c), l\<lparr>pos := Suc (pos l), width := 1\<rparr>)"
    by (intro lnext_ascii [where t = t]) simp_all
  with Nil.prems(4) show ?case
    by (subst skipSpacesLoop.simps) simp
next
  case (Cons s sp)
  let ?l1 = "l\<lparr>pos := Suc (pos l), width := 1\<rparr>"
  from Cons.prems(2) have sp: "isSpace (int (of_char s))" by simp
  from Cons.prems(1) have nx: "lnext l = (int (of_char s), ?l1)"
    by (intro lnext_ascii [where t = "sp @ c # t"] isSpace_ascii sp) simp
  have dr: "drop (pos ?l1) (input ?l1) = sp @ c # t"
    using drop_Suc_Cons_eq [of "pos l" "input l" s "sp @ c # t"] Cons.prems(1) by simp
  have "skipSpacesLoop ?l1 = ?l1\<lparr>pos := Suc (pos ?l1 + length sp), width := 1\<rparr>"
    by (rule Cons.IH [OF dr]) (use Cons.prems in simp_all)
  with nx sp show ?case
    by (subst skipSpacesLoop.simps) simp
qed

lemma skipSpaces_run:
  assumes "drop (pos l) (input l) = sp @ c # t"
    and "\<forall>x\<in>set sp. isSpace (int (of_char x))"
    and "of_char c < (0x80::nat)" and "\<not> isSpace (int (of_char c))"
  shows "skipSpaces l =
           l\<lparr>pos := pos l + length sp, start := pos l + length sp, width := 1\<rparr>"
  unfolding skipSpaces_def skipSpacesLoop_run [OF assms]
  by (simp add: unnext_def Let_def)

lemma nextToken_at:
  assumes "drop (pos l) (input l) = sp @ c # t"
    and "\<forall>x\<in>set sp. isSpace (int (of_char x))"
    and "of_char c < (0x80::nat)" and "\<not> isSpace (int (of_char c))"
  shows "nextToken l =
     (let ch = int (of_char c);
          l0 = l\<lparr>pos := pos l + length sp, start := pos l + length sp, width := 1\<rparr>;
          l1 = l\<lparr>pos := Suc (pos l + length sp), start := pos l + length sp, width := 1\<rparr> in
        if ch = 0x2D \<or> isDigit ch then lexNumber l0
        else if isLetter ch then lexIdentifier l1
        else if ch = 0x28 then emit tokenLeftParen l1
        else if ch = 0x29 then emit tokenRightParen l1
        else if ch = eof then emit tokenEOF l1
        else (errorTokenf [''illegal character: '', [CHR 0x27], encodeRune ch, [CHR 0x27]], l1))"
proof -
  let ?l0 = "l\<lparr>pos := pos l + length sp, start := pos l + length sp, width := 1\<rparr>"
  let ?l1 = "l\<lparr>pos := Suc (pos l + length sp), start := pos l + length sp, width := 1\<rparr>"
  have dr: "drop (pos ?l0) (input ?l0) = c # t"
    using drop_after_run [of "pos l" "input l" sp "c # t"] assms(1) by simp
  have "lnext ?l0 = (int (of_char c), ?l0\<lparr>pos := Suc (pos ?l0), width := 1\<rparr>)"
    by (rule lnext_ascii [OF dr assms(3)])
  moreover have "?l0\<lparr>pos := Suc (pos ?l0), width := 1\<rparr> = ?l1"
    by simp
  ultimately have nx: "lnext ?l0 = (int (of_char c), ?l1)"
    by (rule trans [OF _ arg_cong])
  have un: "unnext ?l1 = ?l0"
    by (simp add: unnext_def)
  show ?thesis
    unfolding nextToken_def skipSpaces_run [OF assms] nx prod.case un Let_def ..
qed


lemma lexNumber_bad_run_at:
  assumes dr: "drop (pos l) (input l) = sg @ ds @ rest" and st: "start l = pos l"
    and ne: "ds \<noteq> []" and dig: "\<forall>c\<in>set ds. isDigit (int (of_char c))"
    and sg: "sg = [] \<or> sg = ''-''"
    and rest: "rest \<noteq> []" and dec: "DecodeRuneInString rest = (r, w)"
    and nd: "\<not> isDigit r" and nb: "\<not> isBoundary r"
  shows "lexNumber l =
           (Token tokenError (''bad number syntax: '' @ [CHR 0x27] @ sg @ ds @ take w rest @ [CHR 0x27]),
            l\<lparr>pos := pos l + length (sg @ ds) + w, width := w\<rparr>)"
proof -
  from ne obtain d ds' where ds: "ds = d # ds'" by (cases ds) auto
  let ?ld = "l\<lparr>pos := Suc (pos l + length sg), width := 1\<rparr>"
  let ?lf = "l\<lparr>pos := pos l + length (sg @ ds) + w, width := w\<rparr>"
  from dig ds have d: "isDigit (int (of_char d))" by simp
  then have dnm: "int (of_char d) \<noteq> 0x2D" by (simp add: isDigit_def)
  have first: "(case lnext l of (ch0, l0) \<Rightarrow> if ch0 = 0x2D then lnext l0 else (ch0, l0))
               = (int (of_char d), ?ld)"
  proof (cases "sg = []")
    case True
    have "lnext l = (int (of_char d), l\<lparr>pos := Suc (pos l), width := 1\<rparr>)"
      by (rule lnext_ascii [where t = "ds' @ rest"]) (use True ds d dr in \<open>simp_all add: isDigit_ascii\<close>)
    with True dnm show ?thesis by simp
  next
    case False
    with sg have m: "sg = ''-''" by simp
    let ?lm = "l\<lparr>pos := Suc (pos l), width := 1\<rparr>"
    have a: "lnext l = (int (of_char (CHR ''-'')), ?lm)"
      by (rule lnext_ascii [where t = "ds @ rest"]) (use m dr in simp_all)
    have drm: "drop (pos ?lm) (input ?lm) = d # ds' @ rest"
      using drop_Suc_Cons_eq [of "pos l" "input l" "CHR ''-''" "ds @ rest"] dr m ds by simp
    have b: "lnext ?lm = (int (of_char d), ?lm\<lparr>pos := Suc (pos ?lm), width := 1\<rparr>)"
      by (rule lnext_ascii [OF drm]) (use d in \<open>simp add: isDigit_ascii\<close>)
    from a b m show ?thesis by simp
  qed
  have drd: "drop (pos ?ld) (input ?ld) = ds' @ rest"
    using drop_after_run [of "pos l" "input l" "sg @ [d]" "ds' @ rest"] dr ds by simp
  have drf: "drop (pos l + length (sg @ ds)) (input l) = rest"
    using drop_after_run [of "pos l" "input l" "sg @ ds" rest] dr by simp
  have eqd: "?ld\<lparr>pos := pos ?ld + length ds'\<rparr> = (l\<lparr>pos := pos l + length (sg @ ds)\<rparr>)\<lparr>width := 1\<rparr>"
    using ds by simp
  have "lnext (l\<lparr>pos := pos l + length (sg @ ds)\<rparr>) = (r, ?lf)"
    using lnext_decode [of "l\<lparr>pos := pos l + length (sg @ ds)\<rparr>" rest r w] rest dec drf
    by simp
  then have stop: "lnext (?ld\<lparr>pos := pos ?ld + length ds'\<rparr>) = (r, ?lf)"
    unfolding eqd lnext_width_update .
  have loop: "digitsLoop ?ld = (r, ?lf)"
    unfolding stop [symmetric]
    by (rule digitsLoop_run [OF drd]) (use ds dig nd stop in simp_all)
  have val: "lexer_val ?lf = sg @ ds @ take w rest"
    using st dr by (simp add: lexer_val_def)
  have "lexNumber l =
          (errorTokenf [''bad number syntax: '', [CHR 0x27], lexer_val ?lf, [CHR 0x27]], ?lf)"
    using loop d nb by (simp add: lexNumber_after_sign [OF first])
  then show ?thesis
    unfolding val by (simp add: errorTokenf_def)
qed

lemma lexIdentifier_bad_run_at:
  assumes dr: "drop (pos l) (input l) = ws @ rest"
    and st: "drop (start l) (input l) = a # ws @ rest" and ps: "pos l = Suc (start l)"
    and ws: "\<forall>c\<in>set ws. isDigit (int (of_char c)) \<or> isLetter (int (of_char c))"
    and rest: "rest \<noteq> []" and dec: "DecodeRuneInString rest = (r, w)"
    and nd: "\<not> isDigit r" and nl: "\<not> isLetter r" and nb: "\<not> isBoundary r"
  shows "lexIdentifier l =
           (Token tokenError
              (''bad identifier syntax: '' @ [CHR 0x27] @ a # ws @ take w rest @ [CHR 0x27]),
            l\<lparr>pos := pos l + length ws + w, width := w\<rparr>)"
proof -
  let ?lf = "l\<lparr>pos := pos l + length ws + w, width := w\<rparr>"
  have drf: "drop (pos l + length ws) (input l) = rest"
    using drop_after_run [OF dr] .
  have stop: "lnext (l\<lparr>pos := pos l + length ws\<rparr>) = (r, ?lf)"
    using lnext_decode [of "l\<lparr>pos := pos l + length ws\<rparr>" rest r w] rest dec drf by simp
  have loop: "identLoop l = (r, ?lf)"
    unfolding stop [symmetric]
    by (rule identLoop_run [OF dr]) (use ws nd nl stop in simp_all)
  have val: "lexer_val ?lf = a # ws @ take w rest"
    using st ps by (simp add: lexer_val_def)
  have "lexIdentifier l =
          (errorTokenf [''bad identifier syntax: '', [CHR 0x27], lexer_val ?lf, [CHR 0x27]], ?lf)"
    using loop nb by (simp add: lexIdentifier_def)
  then show ?thesis
    unfolding val by (simp add: errorTokenf_def)
qed

lemma collectLoop_error:
  "nextToken l = (Token tokenError m, l') \<Longrightarrow> collectLoop l = [Token tokenError m]"
  by (subst collectLoop.simps) simp

lemma nextToken_bad_number:
  assumes dr: "drop (pos l) (input l) = sp @ sg @ ds @ rest"
    and sp: "\<forall>x\<in>set sp. isSpace (int (of_char x))"
    and ne: "ds \<noteq> []" and dig: "\<forall>c\<in>set ds. isDigit (int (of_char c))"
    and sg: "sg = [] \<or> sg = ''-''"
    and rest: "rest \<noteq> []" and dec: "DecodeRuneInString rest = (r, w)"
    and nd: "\<not> isDigit r" and nb: "\<not> isBoundary r"
  shows "nextToken l =
           (Token tokenError (''bad number syntax: '' @ [CHR 0x27] @ sg @ ds @ take w rest @ [CHR 0x27]),
            l\<lparr>pos := pos l + length (sp @ sg @ ds) + w, start := pos l + length sp, width := w\<rparr>)"
proof -
  let ?l0 = "l\<lparr>pos := pos l + length sp, start := pos l + length sp, width := 1\<rparr>"
  from ne sg dig obtain c t where ct: "sg @ ds @ rest = c # t"
    and c: "c = CHR ''-'' \<or> isDigit (int (of_char c))"
    by (cases ds) auto
  from c have asc: "of_char c < (0x80::nat)" and nsp: "\<not> isSpace (int (of_char c))"
    and num: "int (of_char c) = 0x2D \<or> isDigit (int (of_char c))"
    by (auto simp: isDigit_def isSpace_def)
  from dr ct have dr': "drop (pos l) (input l) = sp @ c # t" by simp
  have nt: "nextToken l = lexNumber ?l0"
    unfolding nextToken_at [OF dr' sp asc nsp] using num by (simp add: Let_def)
  have dr0: "drop (pos ?l0) (input ?l0) = sg @ ds @ rest"
    using drop_after_run [OF dr] by simp
  have st0: "start ?l0 = pos ?l0" by simp
  show ?thesis
    unfolding nt lexNumber_bad_run_at [OF dr0 st0 ne dig sg rest dec nd nb]
    by simp
qed

lemma nextToken_bad_identifier:
  assumes dr: "drop (pos l) (input l) = sp @ a # ws @ rest"
    and sp: "\<forall>x\<in>set sp. isSpace (int (of_char x))"
    and a: "isLetter (int (of_char a))"
    and ws: "\<forall>c\<in>set ws. isDigit (int (of_char c)) \<or> isLetter (int (of_char c))"
    and rest: "rest \<noteq> []" and dec: "DecodeRuneInString rest = (r, w)"
    and nd: "\<not> isDigit r" and nl: "\<not> isLetter r" and nb: "\<not> isBoundary r"
  shows "nextToken l =
           (Token tokenError
              (''bad identifier syntax: '' @ [CHR 0x27] @ a # ws @ take w rest @ [CHR 0x27]),
            l\<lparr>pos := pos l + length (sp @ a # ws) + w, start := pos l + length sp, width := w\<rparr>)"
proof -
  let ?l1 = "l\<lparr>pos := Suc (pos l + length sp), start := pos l + length sp, width := 1\<rparr>"
  from a have asc: "of_char a < (0x80::nat)" and nsp: "\<not> isSpace (int (of_char a))"
    and nnum: "\<not> (int (of_char a) = 0x2D \<or> isDigit (int (of_char a)))"
    by (auto simp: isLetter_def isDigit_def isSpace_def)
  have nt: "nextToken l = lexIdentifier ?l1"
    unfolding nextToken_at [OF dr sp asc nsp] using nnum a by (simp add: Let_def)
  have st1: "drop (start ?l1) (input ?l1) = a # ws @ rest"
    using drop_after_run [OF dr] by simp
  have dr1: "drop (pos ?l1) (input ?l1) = ws @ rest"
    using drop_Suc_Cons_eq [of "pos l + length sp" "input l" a "ws @ rest"] st1 by simp
  have ps1: "pos ?l1 = Suc (start ?l1)" by simp
  show ?thesis
    unfolding nt lexIdentifier_bad_run_at [OF dr1 st1 ps1 ws rest dec nd nl nb]
    by simp
qed

lemma collectTokens_lam_x_quote:
  "collectTokens (''lam x'' @ [CHR 0x27] @ '' x'') =
     [Token tokenIdentifier ''lam'',
      Token tokenError (''bad identifier syntax: '' @ [CHR 0x27] @ ''x'' @ [CHR 0x27] @ [CHR 0x27])]"
  by code_simp

lemma collectTokens_app_3x:
  "collectTokens ''app 3x'' =
     [Token tokenIdentifier ''app'',
      Token tokenError (''bad number syntax: '' @ [CHR 0x27] @ ''3x'' @ [CHR 0x27])]"
  by code_simp

lemma collectTokens_space_3x:
  "collectTokens '' 3x'' =
     [Token tokenError (''bad number syntax: '' @ [CHR 0x27] @ ''3x'' @ [CHR 0x27])]"
  by code_simp

text \<open>
  Claim C6 says that lexing \<open>"truex"\<close> produces exactly one error token. The letters
  \<open>truex\<close> followed by the end of the input are a well-formed identifier: the lexer
  returns an identifier token and then the end-of-input token, and no error token.
\<close>

theorem C6_truex_counterexample:
  "collectTokens ''truex'' = [Token tokenIdentifier ''truex'', Token tokenEOF []]
   \<and> tokenError \<notin> ttyp ` set (collectTokens ''truex'')"
  by (simp add: collectTokens_truex)

text \<open>
  Claim C6, amended. Wherever the lexer stands in the text, when the unread input is any
  number of spaces, then a run of digits (after an optional minus sign) or a run of letters
  and digits that starts with a letter, immediately followed by a rune that neither
  continues the run nor is a boundary, the next token is an error token and the token
  stream ends with it; the message quotes the run up to and including that rune (all its
  bytes), not the spaces before it nor the text after it, and the lexer stops right after
  that rune. This holds in particular at the start of the text. So \<open>"3x"\<close> gives exactly
  one error token, and \<open>"3xyz"\<close> the same one; in the middle of a text, \<open>"lam x' x"\<close>
  gives the token of \<open>lam\<close> and then the error token of \<open>x'\<close>, and \<open>"app 3x"\<close> the token
  of \<open>app\<close> and then the error token of \<open>3x\<close>. The text \<open>"truex"\<close> violates no
  boundary: it is one identifier token followed by end-of-input.
\<close>

theorem C6_boundary_violations:
  "(\<forall>l sp sg ds rest r w.
      drop (pos l) (input l) = sp @ sg @ ds @ rest
      \<and> (\<forall>c\<in>set sp. isSpace (int (of_char c)))
      \<and> ds \<noteq> [] \<and> set ds \<subseteq> set ''0123456789'' \<and> (sg = [] \<or> sg = ''-'')
      \<and> rest \<noteq> [] \<and> DecodeRuneInString rest = (r, w) \<and> \<not> isDigit r \<and> \<not> isBoundary r \<longrightarrow>
      nextToken l =
        (Token tokenError
           (''bad number syntax: '' @ [CHR 0x27] @ sg @ ds @ take w rest @ [CHR 0x27]),
         l\<lparr>pos := pos l + length (sp @ sg @ ds) + w, start := pos l + length sp, width := w\<rparr>)
      \<and> collectLoop l =
        [Token tokenError
           (''bad number syntax: '' @ [CHR 0x27] @ sg @ ds @ take w rest @ [CHR 0x27])])
   \<and> (\<forall>l sp a ws rest r w.
         drop (pos l) (input l) = sp @ a # ws @ rest
         \<and> (\<forall>c\<in>set sp. isSpace (int (of_char c)))
         \<and> isLetter (int (of_char a))
         \<and> (\<forall>c\<in>set ws. isDigit (int (of_char c)) \<or> isLetter (int (of_char c)))
         \<and> rest \<noteq> [] \<and> DecodeRuneInString rest = (r, w)
         \<and> \<not> isDigit r \<and> \<not> isLetter r \<and> \<not> isBoundary r \<longrightarrow>
         nextToken l =
           (Token tokenError
              (''bad identifier syntax: '' @ [CHR 0x27] @ a # ws @ take w rest @ [CHR 0x27]),
            l\<lparr>pos := pos l + length (sp @ a # ws) + w, start := pos l + length sp, width := w\<rparr>)
         \<and> collectLoop l =
           [Token tokenError
              (''bad identifier syntax: '' @ [CHR 0x27] @ a # ws @ take w rest @ [CHR 0x27])])
   \<and> (\<forall>sg ds rest r w.
      ds \<noteq> [] \<and> set ds \<subseteq> set ''0123456789'' \<and> (sg = [] \<or> sg = ''-'')
      \<and> rest \<noteq> [] \<and> DecodeRuneInString rest = (r, w) \<and> \<not> isDigit r \<and> \<not> isBoundary r \<longrightarrow>
      collectTokens (sg @ ds @ rest) =
        [Token tokenError
           (''bad number syntax: '' @ [CHR 0x27] @ sg @ ds @ take w rest @ [CHR 0x27])])
   \<and> (\<forall>a ws rest r w.
         isLetter (int (of_char a))
         \<and> (\<forall>c\<in>set ws. isDigit (int (of_char c)) \<or> isLetter (int (of_char c)))
         \<and> rest \<noteq> [] \<and> DecodeRuneInString rest = (r, w)
         \<and> \<not> isDigit r \<and> \<not> isLetter r \<and> \<not> isBoundary r \<longrightarrow>
         collectTokens (a # ws @ rest) =
           [Token tokenError
              (''bad identifier syntax: '' @ [CHR 0x27] @ a # ws @ take w rest @ [CHR 0x27])])
   \<and> collectTokens ''3x'' =
         [Token tokenError (''bad number syntax: '' @ [CHR 0x27] @ ''3x'' @ [CHR 0x27])]
   \<and> collectTokens ''3xyz'' =
         [Token tokenError (''bad number syntax: '' @ [CHR 0x27] @ ''3x'' @ [CHR 0x27])]
   \<and> collectTokens (''lam x'' @ [CHR 0x27] @ '' x'') =
         [Token tokenIdentifier ''lam'',
          Token tokenError
            (''bad identifier syntax: '' @ [CHR 0x27] @ ''x'' @ [CHR 0x27] @ [CHR 0x27])]
   \<and> collectTokens ''app 3x'' =
         [Token tokenIdentifier ''app'',
          Token tokenError (''bad number syntax: '' @ [CHR 0x27] @ ''3x'' @ [CHR 0x27])]
   \<and> collectTokens '' 3x'' =
         [Token tokenError (''bad number syntax: '' @ [CHR 0x27] @ ''3x'' @ [CHR 0x27])]
   \<and> collectTokens ''truex'' = [Token tokenIdentifier ''truex'', Token tokenEOF []]"
proof (intro conjI allI impI)
  fix l :: lexer and sp sg ds rest r w
  assume h: "drop (pos l) (input l) = sp @ sg @ ds @ rest
      \<and> (\<forall>c\<in>set sp. isSpace (int (of_char c)))
      \<and> ds \<noteq> [] \<and> set ds \<subseteq> set ''0123456789'' \<and> (sg = [] \<or> sg = ''-'')
      \<and> rest \<noteq> [] \<and> DecodeRuneInString rest = (r, w) \<and> \<not> isDigit r \<and> \<not> isBoundary r"
  then have dig: "\<forall>c\<in>set ds. isDigit (int (of_char c))"
    using digit_chars by blast
  from h have 0: "drop (pos l) (input l) = sp @ sg @ ds @ rest"
    and s: "\<forall>c\<in>set sp. isSpace (int (of_char c))"
    and 1: "ds \<noteq> []" and 3: "sg = [] \<or> sg = ''-''" and 4: "rest \<noteq> []"
    and 5: "DecodeRuneInString rest = (r, w)" and 6: "\<not> isDigit r" and 7: "\<not> isBoundary r"
    by blast+
  show nt: "nextToken l =
        (Token tokenError
           (''bad number syntax: '' @ [CHR 0x27] @ sg @ ds @ take w rest @ [CHR 0x27]),
         l\<lparr>pos := pos l + length (sp @ sg @ ds) + w, start := pos l + length sp, width := w\<rparr>)"
    by (rule nextToken_bad_number [OF 0 s 1 dig 3 4 5 6 7])
  show "collectLoop l =
        [Token tokenError
           (''bad number syntax: '' @ [CHR 0x27] @ sg @ ds @ take w rest @ [CHR 0x27])]"
    by (rule collectLoop_error [OF nt])
next
  fix l :: lexer and sp a ws rest r w
  assume h: "drop (pos l) (input l) = sp @ a # ws @ rest
         \<and> (\<forall>c\<in>set sp. isSpace (int (of_char c)))
         \<and> isLetter (int (of_char a))
         \<and> (\<forall>c\<in>set ws. isDigit (int (of_char c)) \<or> isLetter (int (of_char c)))
         \<and> rest \<noteq> [] \<and> DecodeRuneInString rest = (r, w)
         \<and> \<not> isDigit r \<and> \<not> isLetter r \<and> \<not> isBoundary r"
  then have 0: "drop (pos l) (input l) = sp @ a # ws @ rest"
    and s: "\<forall>c\<in>set sp. isSpace (int (of_char c))"
    and 1: "isLetter (int (of_char a))"
    and 2: "\<forall>c\<in>set ws. isDigit (int (of_char c)) \<or> isLetter (int (of_char c))"
    and 3: "rest \<noteq> []" and 4: "DecodeRuneInString rest = (r, w)"
    and 5: "\<not> isDigit r" and 6: "\<not> isLetter r" and 7: "\<not> isBoundary r"
    by blast+
  show nt: "nextToken l =
           (Token tokenError
              (''bad identifier syntax: '' @ [CHR 0x27] @ a # ws @ take w rest @ [CHR 0x27]),
            l\<lparr>pos := pos l + length (sp @ a # ws) + w, start := pos l + length sp, width := w\<rparr>)"
    by (rule nextToken_bad_identifier [OF 0 s 1 2 3 4 5 6 7])
  show "collectLoop l =
           [Token tokenError
              (''bad identifier syntax: '' @ [CHR 0x27] @ a # ws @ take w rest @ [CHR 0x27])]"
    by (rule collectLoop_error [OF nt])
next
  fix sg ds rest r w
  assume h: "ds \<noteq> [] \<and> set ds \<subseteq> set ''0123456789'' \<and> (sg = [] \<or> sg = ''-'')
      \<and> rest \<noteq> [] \<and> DecodeRuneInString rest = (r, w) \<and> \<not> isDigit r \<and> \<not> isBoundary r"
  then have dig: "\<forall>c\<in>set ds. isDigit (int (of_char c))"
    using digit_chars by blast
  from h have 1: "ds \<noteq> []" and 3: "sg = [] \<or> sg = ''-''" and 4: "rest \<noteq> []"
    and 5: "DecodeRuneInString rest = (r, w)" and 6: "\<not> isDigit r" and 7: "\<not> isBoundary r"
    by blast+
  show "collectTokens (sg @ ds @ rest) =
        [Token tokenError
           (''bad number syntax: '' @ [CHR 0x27] @ sg @ ds @ take w rest @ [CHR 0x27])]"
    by (rule collectTokens_bad_number [OF 1 dig 3 4 5 6 7])
next
  fix a ws rest r w
  assume h: "isLetter (int (of_char a))
         \<and> (\<forall>c\<in>set ws. isDigit (int (of_char c)) \<or> isLetter (int (of_char c)))
         \<and> rest \<noteq> [] \<and> DecodeRuneInString rest = (r, w)
         \<and> \<not> isDigit r \<and> \<not> isLetter r \<and> \<not> isBoundary r"
  then have 1: "isLetter (int (of_char a))"
    and 2: "\<forall>c\<in>set ws. isDigit (int (of_char c)) \<or> isLetter (int (of_char c))"
    and 3: "rest \<noteq> []" and 4: "DecodeRuneInString rest = (r, w)"
    and 5: "\<not> isDigit r" and 6: "\<not> isLetter r" and 7: "\<not> isBoundary r"
    by blast+
  show "collectTokens (a # ws @ rest) =
           [Token tokenError
              (''bad identifier syntax: '' @ [CHR 0x27] @ a # ws @ take w rest @ [CHR 0x27])]"
    by (rule collectTokens_bad_identifier [OF 1 2 3 4 5 6 7])
next
  show "collectTokens ''3x'' =
         [Token tokenError (''bad number syntax: '' @ [CHR 0x27] @ ''3x'' @ [CHR 0x27])]"
    by (rule collectTokens_3x)
next
  show "collectTokens ''3xyz'' =
         [Token tokenError (''bad number syntax: '' @ [CHR 0x27] @ ''3x'' @ [CHR 0x27])]"
    by (rule collectTokens_3xyz)
next
  show "collectTokens (''lam x'' @ [CHR 0x27] @ '' x'') =
         [Token tokenIdentifier ''lam'',
          Token tokenError
            (''bad identifier syntax: '' @ [CHR 0x27] @ ''x'' @ [CHR 0x27] @ [CHR 0x27])]"
    by (rule collectTokens_lam_x_quote)
next
  show "collectTokens ''app 3x'' =
         [Token tokenIdentifier ''app'',
          Token tokenError (''bad number syntax: '' @ [CHR 0x27] @ ''3x'' @ [CHR 0x27])]"
    by (rule collectTokens_app_3x)
next
  show "collectTokens '' 3x'' =
         [Token tokenError (''bad number syntax: '' @ [CHR 0x27] @ ''3x'' @ [CHR 0x27])]"
    by (rule collectTokens_space_3x)
next
  show "collectTokens ''truex'' = [Token tokenIdentifier ''truex'', Token tokenEOF []]"
    by (rule collectTokens_truex)
qed

lemma decode_slash: "DecodeRuneInString ''/ 4'' = (0x2F, 1)"
  by code_simp

lemma decode_e_acute: "DecodeRuneInString [CHR 0xC3, CHR 0xA9, CHR ''y''] = (0xE9, 2)"
  by code_simp

lemma decode_quote: "DecodeRuneInString [CHR 0x27, CHR '' '', CHR ''x''] = (0x27, 1)"
  by code_simp

lemma decode_x: "DecodeRuneInString ''x'' = (0x78, 1)"
  by code_simp

lemma nextToken_lam_first:
  "nextToken (newLexer [CHR ''l'', CHR ''a'', CHR ''m'', CHR '' '', CHR ''x'', CHR 0x27,
                        CHR '' '', CHR ''x'']) =
     (Token tokenIdentifier ''lam'',
      \<lparr>input = [CHR ''l'', CHR ''a'', CHR ''m'', CHR '' '', CHR ''x'', CHR 0x27,
                CHR '' '', CHR ''x''], pos = 3, start = 3, width = 1\<rparr>)"
  by code_simp

lemma nextToken_app_first:
  "nextToken (newLexer ''app  -3x'') =
     (Token tokenIdentifier ''app'', \<lparr>input = ''app  -3x'', pos = 3, start = 3, width = 1\<rparr>)"
  by code_simp

theorem C6_boundary_violations_witness:
  "nextToken \<lparr>input = [CHR ''l'', CHR ''a'', CHR ''m'', CHR '' '', CHR ''x'', CHR 0x27,
                       CHR '' '', CHR ''x''], pos = 3, start = 3, width = 1\<rparr> =
     (Token tokenError (''bad identifier syntax: '' @ [CHR 0x27] @ [CHR ''x'', CHR 0x27]
                        @ [CHR 0x27]),
      \<lparr>input = [CHR ''l'', CHR ''a'', CHR ''m'', CHR '' '', CHR ''x'', CHR 0x27,
                CHR '' '', CHR ''x''], pos = 6, start = 4, width = 1\<rparr>)
   \<and> collectTokens [CHR ''l'', CHR ''a'', CHR ''m'', CHR '' '', CHR ''x'', CHR 0x27,
                     CHR '' '', CHR ''x''] =
     [Token tokenIdentifier ''lam'',
      Token tokenError (''bad identifier syntax: '' @ [CHR 0x27] @ [CHR ''x'', CHR 0x27]
                        @ [CHR 0x27])]
   \<and> nextToken \<lparr>input = ''app  -3x'', pos = 3, start = 3, width = 1\<rparr> =
     (Token tokenError (''bad number syntax: '' @ [CHR 0x27] @ ''-3x'' @ [CHR 0x27]),
      \<lparr>input = ''app  -3x'', pos = 8, start = 5, width = 1\<rparr>)
   \<and> collectTokens ''app  -3x'' =
     [Token tokenIdentifier ''app'',
      Token tokenError (''bad number syntax: '' @ [CHR 0x27] @ ''-3x'' @ [CHR 0x27])]
   \<and> collectTokens ''-12/ 4'' =
     [Token tokenError (''bad number syntax: '' @ [CHR 0x27] @ ''-12/'' @ [CHR 0x27])]
   \<and> collectTokens [CHR ''3'', CHR 0xC3, CHR 0xA9, CHR ''y''] =
     [Token tokenError (''bad number syntax: '' @ [CHR 0x27] @ [CHR ''3'', CHR 0xC3, CHR 0xA9]
                        @ [CHR 0x27])]
   \<and> collectTokens [CHR ''x'', CHR ''1'', CHR 0x27, CHR '' '', CHR ''x''] =
     [Token tokenError (''bad identifier syntax: '' @ [CHR 0x27] @ [CHR ''x'', CHR ''1'', CHR 0x27]
                        @ [CHR 0x27])]"
proof -
  note T = C6_boundary_violations
  let ?s = "[CHR ''l'', CHR ''a'', CHR ''m'', CHR '' '', CHR ''x'', CHR 0x27, CHR '' '', CHR ''x'']"
  let ?l = "\<lparr>input = ?s, pos = 3, start = 3, width = 1\<rparr>"
  have ha: "drop (pos ?l) (input ?l) = '' '' @ CHR ''x'' # [] @ [CHR 0x27, CHR '' '', CHR ''x'']
         \<and> (\<forall>c\<in>set '' ''. isSpace (int (of_char c)))
         \<and> isLetter (int (of_char (CHR ''x'')))
         \<and> (\<forall>c\<in>set []. isDigit (int (of_char c)) \<or> isLetter (int (of_char c)))
         \<and> [CHR 0x27, CHR '' '', CHR ''x''] \<noteq> []
         \<and> DecodeRuneInString [CHR 0x27, CHR '' '', CHR ''x''] = (0x27, 1)
         \<and> \<not> isDigit 0x27 \<and> \<not> isLetter 0x27 \<and> \<not> isBoundary 0x27"
    using decode_quote by (simp add: isDigit_def isLetter_def isBoundary_def isSpace_def eof_def)
  note A = T [THEN conjunct2, THEN conjunct1, rule_format, OF ha]
  from A have a1: "nextToken ?l =
     (Token tokenError (''bad identifier syntax: '' @ [CHR 0x27] @ [CHR ''x'', CHR 0x27]
                        @ [CHR 0x27]),
      \<lparr>input = ?s, pos = 6, start = 4, width = 1\<rparr>)"
    by simp
  from A have "collectLoop ?l =
     [Token tokenError (''bad identifier syntax: '' @ [CHR 0x27] @ [CHR ''x'', CHR 0x27]
                        @ [CHR 0x27])]"
    by simp
  then have a2: "collectTokens ?s =
     [Token tokenIdentifier ''lam'',
      Token tokenError (''bad identifier syntax: '' @ [CHR 0x27] @ [CHR ''x'', CHR 0x27]
                        @ [CHR 0x27])]"
    unfolding collectTokens_def
    by (subst collectLoop.simps) (simp add: nextToken_lam_first)
  let ?m = "\<lparr>input = ''app  -3x'', pos = 3, start = 3, width = 1\<rparr>"
  have hb: "drop (pos ?m) (input ?m) = ''  '' @ ''-'' @ ''3'' @ ''x''
      \<and> (\<forall>c\<in>set ''  ''. isSpace (int (of_char c)))
      \<and> ''3'' \<noteq> [] \<and> set ''3'' \<subseteq> set ''0123456789'' \<and> (''-'' = [] \<or> ''-'' = ''-'')
      \<and> ''x'' \<noteq> [] \<and> DecodeRuneInString ''x'' = (0x78, 1) \<and> \<not> isDigit 0x78
      \<and> \<not> isBoundary 0x78"
    using decode_x by (simp add: isDigit_def isBoundary_def isSpace_def eof_def)
  note B = T [THEN conjunct1, rule_format, OF hb]
  from B have b1: "nextToken ?m =
     (Token tokenError (''bad number syntax: '' @ [CHR 0x27] @ ''-3x'' @ [CHR 0x27]),
      \<lparr>input = ''app  -3x'', pos = 8, start = 5, width = 1\<rparr>)"
    by simp
  from B have "collectLoop ?m =
     [Token tokenError (''bad number syntax: '' @ [CHR 0x27] @ ''-3x'' @ [CHR 0x27])]"
    by simp
  then have b2: "collectTokens ''app  -3x'' =
     [Token tokenIdentifier ''app'',
      Token tokenError (''bad number syntax: '' @ [CHR 0x27] @ ''-3x'' @ [CHR 0x27])]"
    unfolding collectTokens_def
    by (subst collectLoop.simps) (simp add: nextToken_app_first)
  have h1: "''12'' \<noteq> [] \<and> set ''12'' \<subseteq> set ''0123456789'' \<and> (''-'' = [] \<or> ''-'' = ''-'')
      \<and> ''/ 4'' \<noteq> [] \<and> DecodeRuneInString ''/ 4'' = (0x2F, 1) \<and> \<not> isDigit 0x2F
      \<and> \<not> isBoundary 0x2F"
    using decode_slash by (simp add: isDigit_def isBoundary_def isSpace_def eof_def)
  have "collectTokens (''-'' @ ''12'' @ ''/ 4'') =
     [Token tokenError (''bad number syntax: '' @ [CHR 0x27] @ ''-'' @ ''12'' @ take 1 ''/ 4''
                        @ [CHR 0x27])]"
    using T [THEN conjunct2, THEN conjunct2, THEN conjunct1, rule_format, OF h1] .
  then have r1: "collectTokens ''-12/ 4'' =
     [Token tokenError (''bad number syntax: '' @ [CHR 0x27] @ ''-12/'' @ [CHR 0x27])]"
    by simp
  have h2: "''3'' \<noteq> [] \<and> set ''3'' \<subseteq> set ''0123456789'' \<and> ([] = [] \<or> [] = ''-'')
      \<and> [CHR 0xC3, CHR 0xA9, CHR ''y''] \<noteq> []
      \<and> DecodeRuneInString [CHR 0xC3, CHR 0xA9, CHR ''y''] = (0xE9, 2) \<and> \<not> isDigit 0xE9
      \<and> \<not> isBoundary 0xE9"
    using decode_e_acute by (simp add: isDigit_def isBoundary_def isSpace_def eof_def)
  have "collectTokens ([] @ ''3'' @ [CHR 0xC3, CHR 0xA9, CHR ''y'']) =
     [Token tokenError (''bad number syntax: '' @ [CHR 0x27] @ [] @ ''3''
                        @ take 2 [CHR 0xC3, CHR 0xA9, CHR ''y''] @ [CHR 0x27])]"
    using T [THEN conjunct2, THEN conjunct2, THEN conjunct1, rule_format, OF h2] .
  then have r2: "collectTokens [CHR ''3'', CHR 0xC3, CHR 0xA9, CHR ''y''] =
     [Token tokenError (''bad number syntax: '' @ [CHR 0x27] @ [CHR ''3'', CHR 0xC3, CHR 0xA9]
                        @ [CHR 0x27])]"
    by simp
  have h3: "isLetter (int (of_char (CHR ''x'')))
         \<and> (\<forall>c\<in>set ''1''. isDigit (int (of_char c)) \<or> isLetter (int (of_char c)))
         \<and> [CHR 0x27, CHR '' '', CHR ''x''] \<noteq> []
         \<and> DecodeRuneInString [CHR 0x27, CHR '' '', CHR ''x''] = (0x27, 1)
         \<and> \<not> isDigit 0x27 \<and> \<not> isLetter 0x27 \<and> \<not> isBoundary 0x27"
    using decode_quote by (simp add: isDigit_def isLetter_def isBoundary_def isSpace_def eof_def)
  have "collectTokens (CHR ''x'' # ''1'' @ [CHR 0x27, CHR '' '', CHR ''x'']) =
     [Token tokenError (''bad identifier syntax: '' @ [CHR 0x27] @ CHR ''x'' # ''1''
                        @ take 1 [CHR 0x27, CHR '' '', CHR ''x''] @ [CHR 0x27])]"
    using T [THEN conjunct2, THEN conjunct2, THEN conjunct2, THEN conjunct1, rule_format, OF h3] .
  then have r3: "collectTokens [CHR ''x'', CHR ''1'', CHR 0x27, CHR '' '', CHR ''x''] =
     [Token tokenError (''bad identifier syntax: '' @ [CHR 0x27] @ [CHR ''x'', CHR ''1'', CHR 0x27]
                        @ [CHR 0x27])]"
    by simp
  show ?thesis using a1 a2 b1 b2 r1 r2 r3 by (intro conjI)
qed

section \<open>The words lam and app\<close>

text \<open>The names of the identifier nodes of a tree (a lambda's parameter is not a node).\<close>

fun identifiers :: "node \<Rightarrow> string set" where
  "identifiers (NodeError e) = {}"
| "identifiers (NodeApp f a) = identifiers f \<union> identifiers a"
| "identifiers (NodeLam x b) = identifiers b"
| "identifiers (NodeIdentifier x) = {x}"
| "identifiers (NodeNumber n) = {}"
| "identifiers (NodeBool b) = {}"

definition noKeywordIdentifier :: "node \<Rightarrow> bool" where
  "noKeywordIdentifier n = (''lam'' \<notin> identifiers n \<and> ''app'' \<notin> identifiers n)"

lemma identifiers_error: "ntyp n = nodeError \<Longrightarrow> identifiers n = {}"
  by (cases n) simp_all

lemma parseNumber_noKeyword: "parseNumber p = (n, p') \<Longrightarrow> noKeywordIdentifier n"
  by (auto simp: parseNumber_def noKeywordIdentifier_def errorNodef_def
           split: prod.splits option.splits)

lemma parseBool_noKeyword: "parseBool p = (n, p') \<Longrightarrow> noKeywordIdentifier n"
  by (auto simp: parseBool_def noKeywordIdentifier_def errorNodef_def
           split: prod.splits if_splits)

lemma parseIdentifier_buffered:
  "parseIdentifier (p\<lparr>buf := Some tok\<rparr>) =
     (if ttyp tok \<noteq> tokenIdentifier then (newExpectError syntaxIdentifier (ttyp tok), p\<lparr>buf := None\<rparr>)
      else (NodeIdentifier (tval tok), p\<lparr>buf := None\<rparr>))"
  by (simp add: parseIdentifier_def pnext_def)

lemma parse_noKeyword:
  shows "parseExpression k p = Some (Inr (n, p')) \<Longrightarrow> noKeywordIdentifier n"
    and "parseApp k p = Some (Inr (n, p')) \<Longrightarrow> noKeywordIdentifier n"
    and "parseLam k p = Some (Inr (n, p')) \<Longrightarrow> noKeywordIdentifier n"
proof (induction k p and k p and k p arbitrary: n p' and n p' and n p'
       rule: parseExpression_parseApp_parseLam.induct)
  case (1 p)
  then show ?case by simp
next
  case (2 k p)
  obtain tok p1 where nx: "pnext p = (tok, p1)" by (cases "pnext p")
  have b1: "buf p1 = None" using nx by (auto simp: pnext_def split: option.splits prod.splits)
  show ?case
  proof (cases "ttyp tok")
    case tokenLeftParen
    with "2.prems" nx "2.IH"(1) [OF nx [symmetric]] show ?thesis
      by (auto simp: noKeywordIdentifier_def newExpectError_def
               split: option.splits sum.splits prod.splits if_splits)
  next
    case tokenIdentifier
    show ?thesis
    proof (cases "tval tok = ''lam''")
      case True
      with "2.prems" nx tokenIdentifier have "parseLam k p1 = Some (Inr (n, p'))" by simp
      from "2.IH"(2) [OF nx [symmetric] _ _ _ this] tokenIdentifier True show ?thesis by simp
    next
      case nl: False
      show ?thesis
      proof (cases "tval tok = ''app''")
        case True
        with "2.prems" nx tokenIdentifier nl have "parseApp k p1 = Some (Inr (n, p'))" by simp
        from "2.IH"(3) [OF nx [symmetric] _ _ _ _ this] tokenIdentifier True nl show ?thesis by simp
      next
        case False
        with "2.prems" nx tokenIdentifier nl b1 show ?thesis
          by (auto simp: punnext_def parseIdentifier_buffered noKeywordIdentifier_def)
      qed
    qed
  next
    case tokenNumber
    with "2.prems" nx b1 show ?thesis
      by (auto simp: punnext_def dest: parseNumber_noKeyword)
  next
    case tokenBool
    with "2.prems" nx b1 show ?thesis
      by (auto simp: punnext_def dest: parseBool_noKeyword)
  qed (use "2.prems" nx in \<open>auto simp: noKeywordIdentifier_def newExpectError_def\<close>)
next
  case (3 k p)
  from "3.prems" "3.IH" show ?case
    by (auto simp: noKeywordIdentifier_def split: option.splits sum.splits prod.splits if_splits)
next
  case (4 k p)
  from "4.prems" "4.IH" show ?case
    by (auto simp: noKeywordIdentifier_def identifiers_error
             split: option.splits sum.splits prod.splits if_splits node.splits)
qed

lemma parse_top_noKeyword: "parse k p = Some (Inr n) \<Longrightarrow> noKeywordIdentifier n"
  unfolding parse_def
  by (auto simp: newExpectError_def noKeywordIdentifier_def dest: parse_noKeyword(1)
           split: option.splits sum.splits prod.splits if_splits)

lemma parseString_noKeyword: "parseString s = Some (Inr n) \<Longrightarrow> noKeywordIdentifier n"
  unfolding parseString_def by (rule parse_top_noKeyword)

lemma parseString_lam_lam_1:
  "parseString ''lam lam 1'' = Some (Inr (NodeLam ''lam'' (NodeNumber 1)))"
  by code_simp

lemma parseString_lam_app_1:
  "parseString ''lam app 1'' = Some (Inr (NodeLam ''app'' (NodeNumber 1)))"
  by code_simp

lemma parseString_lam_lam_lam:
  "parseString ''lam lam lam'' = Some (Inr (NodeError (ExpectError syntaxIdentifier tokenEOF)))"
  by code_simp

lemma parseString_lam_x_app:
  "parseString ''lam x app'' = Some (Inr (NodeError (ExpectError syntaxExpression tokenEOF)))"
  by code_simp

text \<open>
  Claim C7 says that \<open>lam\<close> and \<open>app\<close> parse as ordinary identifier nodes when they
  are referenced identifiers. In \<open>lam lam lam\<close> the body is a reference to the parameter
  \<open>lam\<close>, and in \<open>lam x app\<close> a reference to \<open>app\<close>; both begin an expression,
  are read as keywords, and the parse fails at the end of the input.
\<close>

theorem C7_referenced_keyword_counterexample:
  "parseString ''lam lam lam'' = Some (Inr (NodeError (ExpectError syntaxIdentifier tokenEOF)))
   \<and> parseString ''lam lam lam'' \<noteq> Some (Inr (NodeLam ''lam'' (NodeIdentifier ''lam'')))
   \<and> parseString ''lam x app'' = Some (Inr (NodeError (ExpectError syntaxExpression tokenEOF)))
   \<and> parseString ''lam x app'' \<noteq> Some (Inr (NodeLam ''x'' (NodeIdentifier ''app'')))"
  by (simp add: parseString_lam_lam_lam parseString_lam_x_app)

text \<open>
  Claim C7, amended. The words \<open>lam\<close> and \<open>app\<close> are keywords wherever an
  expression begins, and a referenced identifier begins an expression; only as the
  parameter name of a lambda, read by \<open>parseIdentifier\<close>, are they ordinary
  identifiers. No tree returned by \<open>parse\<close> holds an identifier node named
  \<open>lam\<close> or \<open>app\<close>.
\<close>

theorem C7_keywords:
  "(\<forall>k p tok p1.
      pnext p = (tok, p1) \<and> ttyp tok = tokenIdentifier \<and> tval tok = ''lam'' \<longrightarrow>
      parseExpression (Suc k) p = parseLam k p1)
   \<and> (\<forall>k p tok p1.
         pnext p = (tok, p1) \<and> ttyp tok = tokenIdentifier \<and> tval tok = ''app'' \<longrightarrow>
         parseExpression (Suc k) p = parseApp k p1)
   \<and> (\<forall>p tok p1.
         pnext p = (tok, p1) \<and> ttyp tok = tokenIdentifier \<longrightarrow>
         parseIdentifier p = (NodeIdentifier (tval tok), p1))
   \<and> (\<forall>k p name p1 b p2.
         parseIdentifier p = (NodeIdentifier name, p1)
         \<and> parseExpression k p1 = Some (Inr (b, p2)) \<and> ntyp b \<noteq> nodeError \<longrightarrow>
         parseLam k p = Some (Inr (NodeLam name b, p2)))
   \<and> (\<forall>s n. parseString s = Some (Inr n) \<longrightarrow> noKeywordIdentifier n)
   \<and> parseString ''lam lam 1'' = Some (Inr (NodeLam ''lam'' (NodeNumber 1)))
   \<and> parseString ''lam app 1'' = Some (Inr (NodeLam ''app'' (NodeNumber 1)))
   \<and> parseString ''lam lam lam'' = Some (Inr (NodeError (ExpectError syntaxIdentifier tokenEOF)))
   \<and> parseString ''lam x app'' = Some (Inr (NodeError (ExpectError syntaxExpression tokenEOF)))"
proof (intro conjI allI impI)
  fix k p tok p1
  assume "pnext p = (tok, p1) \<and> ttyp tok = tokenIdentifier \<and> tval tok = ''lam''"
  then show "parseExpression (Suc k) p = parseLam k p1" by simp
next
  fix k p tok p1
  assume "pnext p = (tok, p1) \<and> ttyp tok = tokenIdentifier \<and> tval tok = ''app''"
  then show "parseExpression (Suc k) p = parseApp k p1" by simp
next
  fix p tok p1
  assume "pnext p = (tok, p1) \<and> ttyp tok = tokenIdentifier"
  then show "parseIdentifier p = (NodeIdentifier (tval tok), p1)"
    by (simp add: parseIdentifier_def)
next
  fix k p name p1 b p2
  assume "parseIdentifier p = (NodeIdentifier name, p1)
         \<and> parseExpression k p1 = Some (Inr (b, p2)) \<and> ntyp b \<noteq> nodeError"
  then show "parseLam k p = Some (Inr (NodeLam name b, p2))" by simp
next
  fix s n
  assume "parseString s = Some (Inr n)"
  then show "noKeywordIdentifier n" by (rule parseString_noKeyword)
next
  show "parseString ''lam lam 1'' = Some (Inr (NodeLam ''lam'' (NodeNumber 1)))"
    by (rule parseString_lam_lam_1)
next
  show "parseString ''lam app 1'' = Some (Inr (NodeLam ''app'' (NodeNumber 1)))"
    by (rule parseString_lam_app_1)
next
  show "parseString ''lam lam lam'' = Some (Inr (NodeError (ExpectError syntaxIdentifier tokenEOF)))"
    by (rule parseString_lam_lam_lam)
next
  show "parseString ''lam x app'' = Some (Inr (NodeError (ExpectError syntaxExpression tokenEOF)))"
    by (rule parseString_lam_x_app)
qed

lemma pnext_lam_x_x:
  "pnext (newParser ''lam x x'') =
     (Token tokenIdentifier ''lam'',
      \<lparr>plex = \<lparr>input = ''lam x x'', pos = 3, start = 3, width = 1\<rparr>, buf = None\<rparr>)"
  by code_simp

lemma pnext_app_f_1:
  "pnext (newParser ''app f 1'') =
     (Token tokenIdentifier ''app'',
      \<lparr>plex = \<lparr>input = ''app f 1'', pos = 3, start = 3, width = 1\<rparr>, buf = None\<rparr>)"
  by code_simp

lemma pnext_app_1:
  "pnext (newParser ''app 1'') =
     (Token tokenIdentifier ''app'',
      \<lparr>plex = \<lparr>input = ''app 1'', pos = 3, start = 3, width = 1\<rparr>, buf = None\<rparr>)"
  by code_simp

lemma parse_one_after_app:
  "parseExpression 1 \<lparr>plex = \<lparr>input = ''app 1'', pos = 3, start = 3, width = 1\<rparr>, buf = None\<rparr> =
     Some (Inr (NodeNumber 1,
                \<lparr>plex = \<lparr>input = ''app 1'', pos = 5, start = 5, width = 0\<rparr>, buf = None\<rparr>))"
  by code_simp

lemma parseString_app_lam:
  "parseString ''app (lam lam 1) 2'' =
     Some (Inr (NodeApp (NodeLam ''lam'' (NodeNumber 1)) (NodeNumber 2)))"
  by code_simp

theorem C7_keywords_witness:
  "parseExpression (Suc 1) (newParser ''lam x x'') =
     parseLam 1 \<lparr>plex = \<lparr>input = ''lam x x'', pos = 3, start = 3, width = 1\<rparr>, buf = None\<rparr>
   \<and> parseExpression (Suc 2) (newParser ''app f 1'') =
     parseApp 2 \<lparr>plex = \<lparr>input = ''app f 1'', pos = 3, start = 3, width = 1\<rparr>, buf = None\<rparr>
   \<and> parseIdentifier (newParser ''app 1'') =
     (NodeIdentifier ''app'',
      \<lparr>plex = \<lparr>input = ''app 1'', pos = 3, start = 3, width = 1\<rparr>, buf = None\<rparr>)
   \<and> parseLam 1 (newParser ''app 1'') =
     Some (Inr (NodeLam ''app'' (NodeNumber 1),
                \<lparr>plex = \<lparr>input = ''app 1'', pos = 5, start = 5, width = 0\<rparr>, buf = None\<rparr>))
   \<and> noKeywordIdentifier (NodeApp (NodeLam ''lam'' (NodeNumber 1)) (NodeNumber 2))"
proof -
  note T = C7_keywords
  have h1: "pnext (newParser ''lam x x'') =
     (Token tokenIdentifier ''lam'',
      \<lparr>plex = \<lparr>input = ''lam x x'', pos = 3, start = 3, width = 1\<rparr>, buf = None\<rparr>)
     \<and> ttyp (Token tokenIdentifier ''lam'') = tokenIdentifier
     \<and> tval (Token tokenIdentifier ''lam'') = ''lam''"
    using pnext_lam_x_x by simp
  have r1: "parseExpression (Suc 1) (newParser ''lam x x'') =
     parseLam 1 \<lparr>plex = \<lparr>input = ''lam x x'', pos = 3, start = 3, width = 1\<rparr>, buf = None\<rparr>"
    using T [THEN conjunct1, rule_format, OF h1] .
  have h2: "pnext (newParser ''app f 1'') =
     (Token tokenIdentifier ''app'',
      \<lparr>plex = \<lparr>input = ''app f 1'', pos = 3, start = 3, width = 1\<rparr>, buf = None\<rparr>)
     \<and> ttyp (Token tokenIdentifier ''app'') = tokenIdentifier
     \<and> tval (Token tokenIdentifier ''app'') = ''app''"
    using pnext_app_f_1 by simp
  have r2: "parseExpression (Suc 2) (newParser ''app f 1'') =
     parseApp 2 \<lparr>plex = \<lparr>input = ''app f 1'', pos = 3, start = 3, width = 1\<rparr>, buf = None\<rparr>"
    using T [THEN conjunct2, THEN conjunct1, rule_format, OF h2] .
  have h3: "pnext (newParser ''app 1'') =
     (Token tokenIdentifier ''app'',
      \<lparr>plex = \<lparr>input = ''app 1'', pos = 3, start = 3, width = 1\<rparr>, buf = None\<rparr>)
     \<and> ttyp (Token tokenIdentifier ''app'') = tokenIdentifier"
    using pnext_app_1 by simp
  have "parseIdentifier (newParser ''app 1'') =
     (NodeIdentifier (tval (Token tokenIdentifier ''app'')),
      \<lparr>plex = \<lparr>input = ''app 1'', pos = 3, start = 3, width = 1\<rparr>, buf = None\<rparr>)"
    using T [THEN conjunct2, THEN conjunct2, THEN conjunct1, rule_format, OF h3] .
  then have r3: "parseIdentifier (newParser ''app 1'') =
     (NodeIdentifier ''app'',
      \<lparr>plex = \<lparr>input = ''app 1'', pos = 3, start = 3, width = 1\<rparr>, buf = None\<rparr>)"
    by simp
  have h4: "parseIdentifier (newParser ''app 1'') =
     (NodeIdentifier ''app'',
      \<lparr>plex = \<lparr>input = ''app 1'', pos = 3, start = 3, width = 1\<rparr>, buf = None\<rparr>)
     \<and> parseExpression 1 \<lparr>plex = \<lparr>input = ''app 1'', pos = 3, start = 3, width = 1\<rparr>, buf = None\<rparr> =
     Some (Inr (NodeNumber 1,
                \<lparr>plex = \<lparr>input = ''app 1'', pos = 5, start = 5, width = 0\<rparr>, buf = None\<rparr>))
     \<and> ntyp (NodeNumber 1) \<noteq> nodeError"
    using r3 parse_one_after_app by simp
  have r4: "parseLam 1 (newParser ''app 1'') =
     Some (Inr (NodeLam ''app'' (NodeNumber 1),
                \<lparr>plex = \<lparr>input = ''app 1'', pos = 5, start = 5, width = 0\<rparr>, buf = None\<rparr>))"
    using T [THEN conjunct2, THEN conjunct2, THEN conjunct2, THEN conjunct1, rule_format, OF h4] .
  have r5: "noKeywordIdentifier (NodeApp (NodeLam ''lam'' (NodeNumber 1)) (NodeNumber 2))"
    using T [THEN conjunct2, THEN conjunct2, THEN conjunct2, THEN conjunct2, THEN conjunct1,
             rule_format, OF parseString_app_lam] .
  show ?thesis using r1 r2 r3 r4 r5 by (intro conjI)
qed

section \<open>Fuel of the parser\<close>

text \<open>
  What a parser still has to read: the bytes after the lexer's position, and the token
  in the pushback buffer.
\<close>

definition pending :: "parser \<Rightarrow> nat" where
  "pending p =
     length (input (plex p)) - pos (plex p) + (case buf p of None \<Rightarrow> 0 | Some t \<Rightarrow> 1)"

lemma pnext_pending:
  assumes "pnext p = (tok, p1)"
  shows "buf p1 = None" and "pending p1 \<le> pending p"
    and "ttyp tok \<noteq> tokenError \<Longrightarrow> ttyp tok \<noteq> tokenEOF \<Longrightarrow> pending p1 < pending p"
proof -
  show "buf p1 = None"
    using assms by (auto simp: pnext_def split: option.splits prod.splits)
  show "pending p1 \<le> pending p"
  proof (cases "buf p")
    case None
    then obtain l where nt: "nextToken (plex p) = (tok, l)" and p1: "p1 = p\<lparr>plex := l\<rparr>"
      using assms by (auto simp: pnext_def split: prod.splits)
    from nextToken_props(1,2) [OF nt] None p1 show ?thesis
      by (simp add: pending_def)
  next
    case (Some t)
    with assms show ?thesis by (auto simp: pnext_def pending_def)
  qed
  show "pending p1 < pending p" if "ttyp tok \<noteq> tokenError" "ttyp tok \<noteq> tokenEOF"
  proof (cases "buf p")
    case None
    then obtain l where nt: "nextToken (plex p) = (tok, l)" and p1: "p1 = p\<lparr>plex := l\<rparr>"
      using assms by (auto simp: pnext_def split: prod.splits)
    from nextToken_progress [OF nt that] None p1 show ?thesis
      by (simp add: pending_def)
  next
    case (Some t)
    with assms show ?thesis by (auto simp: pnext_def pending_def)
  qed
qed

lemma parseNumber_pending:
  assumes "buf p1 = None"
  shows "\<exists>n. parseNumber (p1\<lparr>buf := Some tok\<rparr>) = (n, p1)"
  using assms by (auto simp: parseNumber_def pnext_def split: option.splits)

lemma parseBool_pending:
  assumes "buf p1 = None"
  shows "\<exists>n. parseBool (p1\<lparr>buf := Some tok\<rparr>) = (n, p1)"
  using assms by (auto simp: parseBool_def pnext_def)

lemma parseIdentifier_pending:
  assumes "buf p1 = None"
  shows "\<exists>n. parseIdentifier (p1\<lparr>buf := Some tok\<rparr>) = (n, p1)"
  using assms by (auto simp: parseIdentifier_buffered)

lemma parseIdentifier_result:
  assumes "parseIdentifier p = (n, p1)"
  shows "pending p1 \<le> pending p" and "ntyp n = nodeError \<or> (\<exists>name. n = NodeIdentifier name)"
proof -
  obtain tok q where nx: "pnext p = (tok, q)" by (cases "pnext p")
  with assms have "p1 = q"
    by (auto simp: parseIdentifier_def split: if_splits)
  with pnext_pending(2) [OF nx] show "pending p1 \<le> pending p" by simp
  from assms nx show "ntyp n = nodeError \<or> (\<exists>name. n = NodeIdentifier name)"
    by (auto simp: parseIdentifier_def newExpectError_def split: if_splits)
qed

lemma parseApp_enough_fuel_step:
  assumes A: "\<And>q. pending q < k \<Longrightarrow>
                \<exists>n q'. parseExpression k q = Some (Inr (n, q')) \<and> pending q' \<le> pending q"
    and k: "pending p < k"
  shows "\<exists>n p'. parseApp k p = Some (Inr (n, p')) \<and> pending p' \<le> pending p"
proof -
  from A [OF k] obtain f p1 where f: "parseExpression k p = Some (Inr (f, p1))"
    and p1: "pending p1 \<le> pending p" by blast
  show ?thesis
  proof (cases "ntyp f = nodeError")
    case True
    with f p1 show ?thesis by simp
  next
    case False
    from p1 k have "pending p1 < k" by simp
    from A [OF this] obtain a p2 where a: "parseExpression k p1 = Some (Inr (a, p2))"
      and p2: "pending p2 \<le> pending p1" by blast
    with f p1 False show ?thesis by (cases "ntyp a = nodeError") simp_all
  qed
qed

lemma parseLam_enough_fuel_step:
  assumes A: "\<And>q. pending q < k \<Longrightarrow>
                \<exists>n q'. parseExpression k q = Some (Inr (n, q')) \<and> pending q' \<le> pending q"
    and k: "pending p < k"
  shows "\<exists>n p'. parseLam k p = Some (Inr (n, p')) \<and> pending p' \<le> pending p"
proof -
  obtain prm p1 where pi: "parseIdentifier p = (prm, p1)" by (cases "parseIdentifier p")
  note r = parseIdentifier_result [OF pi]
  show ?thesis
  proof (cases "ntyp prm = nodeError")
    case True
    with pi r show ?thesis by simp
  next
    case False
    with r(2) obtain name where nm: "prm = NodeIdentifier name" by blast
    from r(1) k have "pending p1 < k" by simp
    from A [OF this] obtain b p2 where b: "parseExpression k p1 = Some (Inr (b, p2))"
      and p2: "pending p2 \<le> pending p1" by blast
    with pi nm r(1) show ?thesis by (cases "ntyp b = nodeError") simp_all
  qed
qed

lemma parseExpression_enough_fuel:
  "pending p < k \<Longrightarrow>
     \<exists>n p'. parseExpression k p = Some (Inr (n, p')) \<and> pending p' \<le> pending p"
proof (induction k arbitrary: p)
  case 0
  then show ?case by simp
next
  case (Suc k)
  obtain tok p1 where nx: "pnext p = (tok, p1)" by (cases "pnext p")
  note pp = pnext_pending [OF nx]
  have adv: "pending p1 < k" if "ttyp tok \<noteq> tokenError" "ttyp tok \<noteq> tokenEOF"
    using pp(3) [OF that] Suc.prems by simp
  show ?case
  proof (cases "ttyp tok")
    case tokenLeftParen
    then have "pending p1 < k" by (intro adv) simp_all
    from Suc.IH [OF this] obtain e p2 where e: "parseExpression k p1 = Some (Inr (e, p2))"
      and p2: "pending p2 \<le> pending p1" by blast
    obtain tok2 p3 where nx2: "pnext p2 = (tok2, p3)" by (cases "pnext p2")
    from pnext_pending(2) [OF nx2] p2 pp(2) have "pending p3 \<le> pending p" by simp
    with nx tokenLeftParen e p2 pp(2) nx2 show ?thesis
      by (cases "ntyp e = nodeError"; cases "ttyp tok2 = tokenRightParen") simp_all
  next
    case tokenIdentifier
    then have k1: "pending p1 < k" by (intro adv) simp_all
    show ?thesis
    proof (cases "tval tok = ''lam''")
      case True
      from parseLam_enough_fuel_step [OF Suc.IH k1] obtain n p' where
        "parseLam k p1 = Some (Inr (n, p'))" "pending p' \<le> pending p1" by blast
      with nx tokenIdentifier True pp(2) show ?thesis by simp
    next
      case nl: False
      show ?thesis
      proof (cases "tval tok = ''app''")
        case True
        from parseApp_enough_fuel_step [OF Suc.IH k1] obtain n p' where
          "parseApp k p1 = Some (Inr (n, p'))" "pending p' \<le> pending p1" by blast
        with nx tokenIdentifier True nl pp(2) show ?thesis by simp
      next
        case False
        from parseIdentifier_pending [OF pp(1), of tok] obtain n where
          "parseIdentifier (p1\<lparr>buf := Some tok\<rparr>) = (n, p1)" by blast
        with nx tokenIdentifier nl False pp(1,2) show ?thesis
          by (simp add: punnext_def)
      qed
    qed
  next
    case tokenNumber
    from parseNumber_pending [OF pp(1), of tok] obtain n where
      "parseNumber (p1\<lparr>buf := Some tok\<rparr>) = (n, p1)" by blast
    with nx tokenNumber pp(1,2) show ?thesis by (simp add: punnext_def)
  next
    case tokenBool
    from parseBool_pending [OF pp(1), of tok] obtain n where
      "parseBool (p1\<lparr>buf := Some tok\<rparr>) = (n, p1)" by blast
    with nx tokenBool pp(1,2) show ?thesis by (simp add: punnext_def)
  qed (use nx pp(2) in simp_all)
qed

lemma parse_enough_fuel: "pending p < k \<Longrightarrow> \<exists>n. parse k p = Some (Inr n)"
proof -
  assume "pending p < k"
  from parseExpression_enough_fuel [OF this] obtain root p1 where
    "parseExpression k p = Some (Inr (root, p1))" by blast
  then show ?thesis
    by (cases "pnext p1") (simp add: parse_def)
qed

lemma parseString_total: "\<exists>n. parseString s = Some (Inr n)"
  unfolding parseString_def
  by (rule parse_enough_fuel) (simp add: pending_def newParser_def newLexer_def)

text \<open>More fuel never changes a result of the parser, so any fuel above the length of the input gives the result of \<open>parseString\<close>.\<close>

lemma parse_fuel_mono:
  shows "parseExpression k p = Some r \<Longrightarrow> k \<le> m \<Longrightarrow> parseExpression m p = Some r"
    and "parseApp k p = Some r \<Longrightarrow> k \<le> m \<Longrightarrow> parseApp m p = Some r"
    and "parseLam k p = Some r \<Longrightarrow> k \<le> m \<Longrightarrow> parseLam m p = Some r"
proof (induction k p and k p and k p arbitrary: r m and r m and r m
       rule: parseExpression_parseApp_parseLam.induct)
  case (1 p)
  then show ?case by simp
next
  case (2 k p)
  from "2.prems"(2) obtain m' where m: "m = Suc m'" and km: "k \<le> m'"
    by (cases m) auto
  obtain tok p1 where nx: "pnext p = (tok, p1)" by (cases "pnext p")
  show ?case
  proof (cases "ttyp tok")
    case tokenLeftParen
    with "2.prems"(1) nx obtain r1 where r1: "parseExpression k p1 = Some r1"
      by (auto split: option.splits)
    from "2.IH"(1) [OF nx [symmetric] _ r1 km] tokenLeftParen
    have "parseExpression m' p1 = Some r1" by simp
    with "2.prems"(1) nx tokenLeftParen r1 m show ?thesis by simp
  next
    case tokenIdentifier
    show ?thesis
    proof (cases "tval tok = ''lam''")
      case True
      with "2.prems"(1) nx tokenIdentifier have "parseLam k p1 = Some r" by simp
      from "2.IH"(2) [OF nx [symmetric] _ _ _ this km] tokenIdentifier True nx m
      show ?thesis by simp
    next
      case nl: False
      show ?thesis
      proof (cases "tval tok = ''app''")
        case True
        with "2.prems"(1) nx tokenIdentifier nl have "parseApp k p1 = Some r" by simp
        from "2.IH"(3) [OF nx [symmetric] _ _ _ _ this km] tokenIdentifier True nl nx m
        show ?thesis by simp
      next
        case False
        with "2.prems"(1) nx tokenIdentifier nl m show ?thesis by simp
      qed
    qed
  qed (use "2.prems"(1) nx m in simp_all)
next
  case (3 k p)
  from "3.prems"(1) obtain r1 where r1: "parseExpression k p = Some r1"
    by (auto split: option.splits)
  note a = "3.IH"(1) [OF r1 "3.prems"(2)]
  show ?case
  proof (cases r1)
    case (Inl e)
    with "3.prems"(1) r1 a show ?thesis by auto
  next
    case (Inr fp)
    obtain f p1 where fp: "fp = (f, p1)" by (cases fp)
    show ?thesis
    proof (cases "ntyp f = nodeError")
      case True
      with "3.prems"(1) r1 a Inr fp show ?thesis by auto
    next
      case False
      with "3.prems"(1) r1 Inr fp obtain r2 where r2: "parseExpression k p1 = Some r2"
        by (auto split: option.splits)
      from "3.IH"(2) [OF r1 Inr fp [symmetric] False r2 "3.prems"(2)]
      have "parseExpression m p1 = Some r2" .
      with "3.prems"(1) r1 a Inr fp False r2 show ?thesis by auto
    qed
  qed
next
  case (4 k p)
  obtain prm p1 where pi: "parseIdentifier p = (prm, p1)" by (cases "parseIdentifier p")
  show ?case
  proof (cases "ntyp prm = nodeError")
    case True
    with "4.prems"(1) pi show ?thesis by auto
  next
    case False
    show ?thesis
    proof (cases prm)
      case (NodeIdentifier name)
      with "4.prems"(1) pi obtain r1 where r1: "parseExpression k p1 = Some r1"
        by (auto split: option.splits)
      from "4.IH" [OF pi [symmetric] False NodeIdentifier r1 "4.prems"(2)]
      have "parseExpression m p1 = Some r1" .
      with "4.prems"(1) pi NodeIdentifier r1 show ?thesis by auto
    qed (use "4.prems"(1) pi in simp_all)
  qed
qed

lemma parseString_fuel:
  assumes "length s < k"
  shows "parse k (newParser s) = parseString s"
proof -
  from parseString_total [of s] obtain n where n: "parseString s = Some (Inr n)" by blast
  then obtain r where r: "parseExpression (Suc (length s)) (newParser s) = Some r"
    unfolding parseString_def parse_def by (auto split: option.splits)
  from assms have "Suc (length s) \<le> k" by simp
  from parse_fuel_mono(1) [OF r this] r show ?thesis
    unfolding parseString_def parse_def by simp
qed

section \<open>Aborts of the evaluator\<close>

text \<open>A tree without error nodes.\<close>

fun errorFree :: "node \<Rightarrow> bool" where
  "errorFree (NodeError e) = False"
| "errorFree (NodeApp f a) = (errorFree f \<and> errorFree a)"
| "errorFree (NodeLam x b) = errorFree b"
| "errorFree (NodeIdentifier x) = True"
| "errorFree (NodeNumber n) = True"
| "errorFree (NodeBool b) = True"

text \<open>
  The objects evaluation builds: a closure of a builtin has captured arguments of the
  type the builtin checked, a closure of a lambda has a body without error nodes, and
  the environments hold such objects only.
\<close>

fun wellFormed :: "object \<Rightarrow> bool"
  and wellFormedFunc :: "funcObject \<Rightarrow> bool"
  and wellFormedEnv :: "environment \<Rightarrow> bool"
where
  "wellFormed (ErrorObject m) = True"
| "wellFormed (BoolObject b) = True"
| "wellFormed (NumberObject n) = True"
| "wellFormed (FuncObject f) = wellFormedFunc f"
| "wellFormed (LamObject x b e) = (errorFree b \<and> wellFormedEnv e)"
| "wellFormedFunc AddFn = True"
| "wellFormedFunc (AddFn1 a) = (otyp a = objectNumber)"
| "wellFormedFunc IfFn = True"
| "wellFormedFunc (IfFn1 a) = (otyp a = objectBool)"
| "wellFormedFunc (IfFn2 a b) = (otyp a = objectBool \<and> wellFormed b)"
| "wellFormedFunc GtFn = True"
| "wellFormedFunc (GtFn1 a) = (otyp a = objectNumber)"
| "wellFormedEnv NilEnv = True"
| "wellFormedEnv (Environment p x v) = (wellFormedEnv p \<and> wellFormed v)"

lemma otyp_number: "otyp a = objectNumber \<Longrightarrow> \<exists>n. a = NumberObject n"
  by (cases a) simp_all

lemma otyp_bool: "otyp a = objectBool \<Longrightarrow> \<exists>b. a = BoolObject b"
  by (cases a) simp_all

lemma funcApply_wellFormed:
  assumes "wellFormedFunc f" and "wellFormed a"
  shows "\<exists>v. funcApply addr f a = Inr v \<and> wellFormed v"
proof (cases f)
  case (AddFn1 x)
  with assms obtain n where "x = NumberObject n" using otyp_number by auto
  with AddFn1 show ?thesis
    by (cases "otyp a = objectNumber") (auto simp: errorObjectf_def dest: otyp_number)
next
  case (GtFn1 x)
  with assms obtain n where "x = NumberObject n" using otyp_number by auto
  with GtFn1 show ?thesis
    by (cases "otyp a = objectNumber") (auto simp: errorObjectf_def dest: otyp_number)
next
  case (IfFn2 x b)
  with assms obtain v where "x = BoolObject v" using otyp_bool by auto
  with IfFn2 assms show ?thesis by auto
qed (use assms in \<open>auto simp: errorObjectf_def\<close>)

lemma lookup_wellFormed: "wellFormedEnv env \<Longrightarrow> wellFormed (lookup env s)"
  by (induction env s rule: lookup.induct) (simp_all add: errorObjectf_def)

lemma defaultEnvironment_wellFormed: "wellFormedEnv defaultEnvironment"
  by (simp add: defaultEnvironment_def extend_def newEnvironment_def builtinAdd_def builtinIf_def
      builtinGt_def)

lemma evalEnv_no_panic:
  "errorFree n \<Longrightarrow> wellFormedEnv env \<Longrightarrow> evalEnv addr k n env = Some r
     \<Longrightarrow> \<exists>v. r = Inr v \<and> wellFormed v"
proof (induction k arbitrary: n env r)
  case 0
  then show ?case by simp
next
  case (Suc k)
  show ?case
  proof (cases n)
    case (NodeApp f a)
    with Suc.prems(1) have ef: "errorFree f" and ea: "errorFree a" by simp_all
    from Suc.prems(3) NodeApp obtain rf where rf: "evalEnv addr k f env = Some rf"
      by (auto split: option.splits)
    from Suc.IH [OF ef Suc.prems(2) rf] obtain fv where fv: "rf = Inr fv" and wf: "wellFormed fv"
      by blast
    show ?thesis
    proof (cases "otyp fv = objectError")
      case True
      with Suc.prems(3) NodeApp rf fv wf show ?thesis by auto
    next
      case False
      with Suc.prems(3) NodeApp rf fv obtain ra where ra: "evalEnv addr k a env = Some ra"
        by (auto split: option.splits)
      from Suc.IH [OF ea Suc.prems(2) ra] obtain av where av: "ra = Inr av" and wa: "wellFormed av"
        by blast
      show ?thesis
      proof (cases "otyp av = objectError")
        case True
        with Suc.prems(3) NodeApp rf fv False ra av wa show ?thesis by auto
      next
        case nerr: False
        show ?thesis
        proof (cases fv)
          case (FuncObject g)
          with wf have "wellFormedFunc g" by simp
          from funcApply_wellFormed [OF this wa, of addr]
            Suc.prems(3) NodeApp rf fv False ra av nerr FuncObject
          show ?thesis by auto
        next
          case (LamObject x b e)
          with wf have eb: "errorFree b" and we: "wellFormedEnv (extend e x av)"
            using wa by (simp_all add: extend_def newEnvironment_def)
          from Suc.prems(3) NodeApp rf fv False ra av nerr LamObject
          have "evalEnv addr k b (extend e x av) = Some r" by simp
          from Suc.IH [OF eb we this] show ?thesis .
        qed (use Suc.prems(3) NodeApp rf fv False ra av nerr in \<open>auto simp: errorObjectf_def\<close>)
      qed
    qed
  next
    case (NodeIdentifier s)
    with Suc.prems show ?thesis by (auto simp: lookup_wellFormed)
  qed (use Suc.prems in auto)
qed

text \<open>The error nodes the parser builds: a mismatch, or the text of a lexical error.\<close>

definition parserError :: "node \<Rightarrow> bool" where
  "parserError n =
     (case n of
        NodeError (ExpectError w g) \<Rightarrow> True
      | NodeError (ErrorfError m) \<Rightarrow> True
      | _ \<Rightarrow> False)"

lemma parserError_simps [simp]:
  "parserError (newExpectError w g)" "parserError (errorNodef parts)"
  "parserError (NodeError (ErrorfError m))" "\<not> parserError (NodeIdentifier x)"
  "\<not> parserError (NodeNumber i)" "\<not> parserError (NodeBool b)"
  "\<not> parserError (NodeApp f a)" "\<not> parserError (NodeLam x c)"
  by (simp_all add: parserError_def newExpectError_def errorNodef_def)

lemma parserError_ntyp: "parserError n \<Longrightarrow> ntyp n = nodeError"
  by (auto simp: parserError_def split: node.splits)

lemma errorFree_ntyp: "errorFree n \<Longrightarrow> ntyp n \<noteq> nodeError"
  by (cases n) simp_all

lemma parse_errorFree:
  shows "parseExpression k p = Some (Inr (n, p')) \<Longrightarrow> parserError n \<or> errorFree n"
    and "parseApp k p = Some (Inr (n, p')) \<Longrightarrow> parserError n \<or> errorFree n"
    and "parseLam k p = Some (Inr (n, p')) \<Longrightarrow> parserError n \<or> errorFree n"
proof (induction k p and k p and k p arbitrary: n p' and n p' and n p'
       rule: parseExpression_parseApp_parseLam.induct)
  case (1 p)
  then show ?case by simp
next
  case (2 k p)
  obtain tok p1 where nx: "pnext p = (tok, p1)" by (cases "pnext p")
  have b1: "buf p1 = None" using nx by (rule pnext_pending(1))
  show ?case
  proof (cases "ttyp tok")
    case tokenLeftParen
    with "2.prems" nx "2.IH"(1) [OF nx [symmetric]] show ?thesis
      by (auto dest: parserError_ntyp errorFree_ntyp
               split: option.splits sum.splits prod.splits if_splits)
  next
    case tokenIdentifier
    show ?thesis
    proof (cases "tval tok = ''lam''")
      case True
      with "2.prems" nx tokenIdentifier have "parseLam k p1 = Some (Inr (n, p'))" by simp
      from "2.IH"(2) [OF nx [symmetric] _ _ _ this] tokenIdentifier True show ?thesis by simp
    next
      case nl: False
      show ?thesis
      proof (cases "tval tok = ''app''")
        case True
        with "2.prems" nx tokenIdentifier nl have "parseApp k p1 = Some (Inr (n, p'))" by simp
        from "2.IH"(3) [OF nx [symmetric] _ _ _ _ this] tokenIdentifier True nl show ?thesis by simp
      next
        case False
        with "2.prems" nx tokenIdentifier nl b1 show ?thesis
          by (auto simp: punnext_def parseIdentifier_buffered)
      qed
    qed
  next
    case tokenNumber
    with "2.prems" nx b1 show ?thesis
      by (auto simp: punnext_def parseNumber_def split: prod.splits option.splits)
  next
    case tokenBool
    with "2.prems" nx b1 show ?thesis
      by (auto simp: punnext_def parseBool_def split: prod.splits if_splits)
  qed (use "2.prems" nx in auto)
next
  case (3 k p)
  from "3.prems" obtain r1 where r1: "parseExpression k p = Some r1"
    by (auto split: option.splits)
  with "3.prems" obtain f p1 where fp: "r1 = Inr (f, p1)"
    by (cases r1) auto
  note a = "3.IH"(1) [OF r1 [unfolded fp]]
  show ?case
  proof (cases "ntyp f = nodeError")
    case True
    with "3.prems" r1 fp a show ?thesis by (auto dest: errorFree_ntyp)
  next
    case False
    with "3.prems" r1 fp obtain r2 where r2: "parseExpression k p1 = Some r2"
      by (auto split: option.splits)
    with "3.prems" r1 fp False obtain b p2 where bp: "r2 = Inr (b, p2)"
      by (cases r2) auto
    from "3.IH"(2) [OF r1 fp refl False r2 [unfolded bp]]
    have "parserError b \<or> errorFree b" .
    with "3.prems" r1 fp False r2 bp a show ?thesis
      by (cases "ntyp b = nodeError") (auto dest: parserError_ntyp errorFree_ntyp)
  qed
next
  case (4 k p)
  obtain prm p1 where pi: "parseIdentifier p = (prm, p1)" by (cases "parseIdentifier p")
  show ?case
  proof (cases "ntyp prm = nodeError")
    case True
    from pi have "parserError prm \<or> (\<exists>name. prm = NodeIdentifier name)"
      by (auto simp: parseIdentifier_def split: prod.splits if_splits)
    with True "4.prems" pi show ?thesis by auto
  next
    case False
    show ?thesis
    proof (cases prm)
      case (NodeIdentifier name)
      with "4.prems" pi obtain r1 where r1: "parseExpression k p1 = Some r1"
        by (auto split: option.splits)
      with "4.prems" pi NodeIdentifier obtain b p2 where bp: "r1 = Inr (b, p2)"
        by (cases r1) auto
      from "4.IH" [OF pi [symmetric] False NodeIdentifier r1 [unfolded bp]]
      have "parserError b \<or> errorFree b" .
      with "4.prems" pi NodeIdentifier r1 bp show ?thesis
        by (cases "ntyp b = nodeError") (auto dest: parserError_ntyp errorFree_ntyp)
    qed (use "4.prems" pi False in auto)
  qed
qed

lemma parseString_errorFree:
  "parseString s = Some (Inr n) \<Longrightarrow> parserError n \<or> errorFree n"
  unfolding parseString_def parse_def
  by (auto simp del: parseExpression.simps dest: parse_errorFree(1) parserError_ntyp errorFree_ntyp
           split: option.splits sum.splits prod.splits if_splits)

lemma evalEnv_parserError:
  "parserError n \<Longrightarrow> evalEnv addr (Suc k) n env = Some (Inl InterfaceConversion)"
  by (auto simp: parserError_def split: node.splits errorVal.splits)

lemma evalString_failed_parse:
  assumes "parseString s = Some (Inr (NodeError e))"
  shows "evalString addr (Suc k) s = Some (Inl InterfaceConversion)"
proof -
  from parseString_errorFree [OF assms] have "parserError (NodeError e)" by simp
  then have "evalEnv addr (Suc k) (NodeError e) defaultEnvironment = Some (Inl InterfaceConversion)"
    by (rule evalEnv_parserError)
  with assms show ?thesis
    unfolding evalString_def eval_def by simp
qed

lemma evalString_no_panic:
  assumes "parseString s = Some (Inr n)" and "ntyp n \<noteq> nodeError"
    and "evalString addr k s = Some r"
  shows "\<exists>v. r = Inr v \<and> wellFormed v"
proof -
  from parseString_errorFree [OF assms(1)] assms(2) have "errorFree n"
    by (auto dest: parserError_ntyp)
  moreover from assms(1,3) have "evalEnv addr k n defaultEnvironment = Some r"
    by (simp add: evalString_def eval_def)
  ultimately show ?thesis
    using defaultEnvironment_wellFormed by (blast intro: evalEnv_no_panic)
qed

lemma parseString_rparen:
  "parseString '')'' = Some (Inr (NodeError (ExpectError syntaxExpression tokenRightParen)))"
  by code_simp

lemma parseString_unclosed:
  "parseString ''(1'' = Some (Inr (NodeError (ExpectError syntaxRightParen tokenEOF)))"
  by code_simp

text \<open>
  Claim C8. The claim is that \<open>parse\<close> never aborts and that \<open>evaluate\<close> returns an
  object, an error object for an embedded parse error, for every tree \<open>parse\<close> can
  return. The parser does return a node for every input (\<open>parseString_total\<close>), and
  evaluating a tree it returns without error never panics (\<open>evalString_no_panic\<close>). But
  the error-node case of \<open>evalEnv\<close> asserts that the node's \<open>val\<close> is a string, while
  every error node of the parser holds a \<open>*expectError\<close> or an error built by
  \<open>fmt.Errorf\<close>: the assertion panics. Evaluating any failed parse aborts, for instance
  that of \<open>")"\<close>.
\<close>

theorem C8_eval_of_parse_error_panics:
  "(\<forall>s e. parseString s = Some (Inr (NodeError e)) \<longrightarrow>
       evalString addr (Suc k) s = Some (Inl InterfaceConversion))
   \<and> evalEnv addr (Suc k) (NodeError (ExpectError w g)) env = Some (Inl InterfaceConversion)
   \<and> evalEnv addr (Suc k) (NodeError (ErrorfError msg)) env = Some (Inl InterfaceConversion)
   \<and> parseString '')'' = Some (Inr (NodeError (ExpectError syntaxExpression tokenRightParen)))
   \<and> evalString addr (Suc k) '')'' = Some (Inl InterfaceConversion)"
proof (intro conjI allI impI)
  fix s e
  assume "parseString s = Some (Inr (NodeError e))"
  then show "evalString addr (Suc k) s = Some (Inl InterfaceConversion)"
    by (rule evalString_failed_parse)
next
  show "evalEnv addr (Suc k) (NodeError (ExpectError w g)) env = Some (Inl InterfaceConversion)"
    by simp
next
  show "evalEnv addr (Suc k) (NodeError (ErrorfError msg)) env = Some (Inl InterfaceConversion)"
    by simp
next
  show "parseString '')'' = Some (Inr (NodeError (ExpectError syntaxExpression tokenRightParen)))"
    by (rule parseString_rparen)
next
  show "evalString addr (Suc k) '')'' = Some (Inl InterfaceConversion)"
    by (rule evalString_failed_parse [OF parseString_rparen])
qed

theorem C8_eval_of_parse_error_panics_witness:
  "parseString ''(1'' = Some (Inr (NodeError (ExpectError syntaxRightParen tokenEOF)))
   \<and> evalString sampleAddr (Suc 0) ''(1'' = Some (Inl InterfaceConversion)"
proof -
  have "evalString sampleAddr (Suc 0) ''(1'' = Some (Inl InterfaceConversion)"
    using C8_eval_of_parse_error_panics [of sampleAddr 0, THEN conjunct1, rule_format,
                                         OF parseString_unclosed] .
  with parseString_unclosed show ?thesis by (intro conjI)
qed

end
